theory Spec2Isabelle
  imports Complex_Main "HOL-Library.AList"
begin

section \<open>Rate limiting (per client, in memory)\<close>

text \<open>
  \<^verbatim>\<open>worker.js\<close>, lines 14--27. The module-level \<^verbatim>\<open>rateLimitMap\<close> is passed in and
  returned; the reading of \<^verbatim>\<open>Date.now()\<close> is the argument \<open>now\<close> (milliseconds, an
  integer). The counter is a JavaScript number, exact below \<open>2^53\<close>; it is a \<open>nat\<close> here.
\<close>

record rate_entry =
  start :: int
  count :: nat

definition RATE_LIMIT_WINDOW :: int where
  "RATE_LIMIT_WINDOW = 60000"

definition RATE_LIMIT_MAX :: nat where
  "RATE_LIMIT_MAX = 15"

definition checkRateLimit ::
  "int \<Rightarrow> 'ip \<Rightarrow> ('ip \<rightharpoonup> rate_entry) \<Rightarrow> bool \<times> ('ip \<rightharpoonup> rate_entry)" where
  "checkRateLimit now ip rateLimitMap =
     (case rateLimitMap ip of
        None \<Rightarrow> (True, rateLimitMap(ip \<mapsto> \<lparr>start = now, count = 1\<rparr>))
      | Some entry \<Rightarrow>
          if now - start entry > RATE_LIMIT_WINDOW
          then (True, rateLimitMap(ip \<mapsto> \<lparr>start = now, count = 1\<rparr>))
          else (let entry' = entry\<lparr>count := count entry + 1\<rparr>
                in (count entry' \<le> RATE_LIMIT_MAX, rateLimitMap(ip \<mapsto> entry'))))"

text \<open>Successive calls of one client, at the given clock readings; the answers in order.\<close>

fun calls :: "int list \<Rightarrow> 'ip \<Rightarrow> ('ip \<rightharpoonup> rate_entry) \<Rightarrow> bool list \<times> ('ip \<rightharpoonup> rate_entry)" where
  "calls [] ip m = ([], m)"
| "calls (t # ts) ip m =
     (case checkRateLimit t ip m of
        (b, m') \<Rightarrow> (case calls ts ip m' of (bs, m'') \<Rightarrow> (b # bs, m'')))"

section \<open>Response cache (in memory, five minutes)\<close>

text \<open>
  \<^verbatim>\<open>worker.js\<close>, lines 30--49. A JavaScript \<^verbatim>\<open>Map\<close> keeps its keys distinct and in
  insertion order, and \<^verbatim>\<open>size\<close> is their number: an association list with distinct
  keys, \<^verbatim>\<open>set\<close> as \<^const>\<open>AList.update\<close> (an existing key keeps its place, a new one
  goes last), \<^verbatim>\<open>delete\<close> as \<^const>\<open>AList.delete\<close>, \<^verbatim>\<open>get\<close> as \<^const>\<open>map_of\<close>.
  \<^verbatim>\<open>setCache\<close> reads the clock twice (lines 41 and 44): two arguments.
\<close>

record 'a cache_entry =
  data :: 'a
  time :: int

type_synonym ('k, 'a) cache = "('k \<times> 'a cache_entry) list"

definition CACHE_TTL :: int where
  "CACHE_TTL = 5 * 60000"

definition getCached :: "int \<Rightarrow> 'k \<Rightarrow> ('k, 'a) cache \<Rightarrow> 'a option \<times> ('k, 'a) cache" where
  "getCached now url cache =
     (case map_of cache url of
        Some entry \<Rightarrow>
          if now - time entry < CACHE_TTL then (Some (data entry), cache)
          else (None, AList.delete url cache)
      | None \<Rightarrow> (None, cache))"

text \<open>The loop of lines 45--47: every entry of the map is visited once.\<close>

fun evict :: "int \<Rightarrow> ('k, 'a) cache \<Rightarrow> ('k, 'a) cache \<Rightarrow> ('k, 'a) cache" where
  "evict now [] cache = cache"
| "evict now ((k, v) # rest) cache =
     evict now rest (if now - time v > CACHE_TTL then AList.delete k cache else cache)"

definition setCache :: "int \<Rightarrow> int \<Rightarrow> 'k \<Rightarrow> 'a \<Rightarrow> ('k, 'a) cache \<Rightarrow> ('k, 'a) cache" where
  "setCache now_set now_sweep url d cache =
     (let cache' = AList.update url \<lparr>data = d, time = now_set\<rparr> cache
      in if length cache' > 200 then evict now_sweep cache' cache' else cache')"

text \<open>A cache of \<open>n\<close> entries stored at time 0, to run the operations on.\<close>

definition old_cache :: "nat \<Rightarrow> (nat, string) cache" where
  "old_cache n = map (\<lambda>i. (i, \<lparr>data = ''old'', time = 0\<rparr>)) [0..<n]"

section \<open>Strings\<close>

text \<open>
  A JavaScript string is a sequence of UTF-16 code units; \<^verbatim>\<open>length\<close>, indexing and
  regular expressions without the \<^verbatim>\<open>u\<close> flag all count code units. A string is the list
  of its code units as numbers, and \<open>js\<close> writes an ASCII literal as such a list.
\<close>

type_synonym jsstring = "nat list"

definition js :: "string \<Rightarrow> jsstring" where
  "js s = map of_char s"

text \<open>
  The code units that \<^verbatim>\<open>trim\<close> removes and that \<^verbatim>\<open>\s\<close> matches: tab, line feed,
  vertical tab, form feed, carriage return, space, U+00A0, U+1680, U+2000 to U+200A,
  U+2028, U+2029, U+202F, U+205F, U+3000 and U+FEFF.
\<close>

definition is_space :: "nat \<Rightarrow> bool" where
  "is_space c \<longleftrightarrow>
     c \<in> {9, 10, 11, 12, 13, 32, 160, 5760, 8232, 8233, 8239, 8287, 12288, 65279} \<or>
     (8192 \<le> c \<and> c \<le> 8202)"

definition is_digit :: "nat \<Rightarrow> bool" where
  "is_digit c \<longleftrightarrow> 48 \<le> c \<and> c \<le> 57"

definition is_upper :: "nat \<Rightarrow> bool" where
  "is_upper c \<longleftrightarrow> 65 \<le> c \<and> c \<le> 90"

definition is_lower :: "nat \<Rightarrow> bool" where
  "is_lower c \<longleftrightarrow> 97 \<le> c \<and> c \<le> 122"

text \<open>
  Matching under the \<^verbatim>\<open>i\<close> flag compares canonical forms. Against an ASCII character of
  a pattern only the ASCII letters differ in case: a code unit above 127 is never
  canonicalised to an ASCII one.
\<close>

definition canon :: "nat \<Rightarrow> nat" where
  "canon c = (if is_lower c then c - 32 else c)"

text \<open>\<^verbatim>\<open>s.trim()\<close>, \<^verbatim>\<open>s.startsWith(sub)\<close>, \<^verbatim>\<open>s.includes(sub)\<close> and \<^verbatim>\<open>s.split(sep)\<close> for a
  separator of one code unit (an empty string splits into one empty piece).\<close>

definition trim :: "jsstring \<Rightarrow> jsstring" where
  "trim s = rev (dropWhile is_space (rev (dropWhile is_space s)))"

fun startsWith :: "jsstring \<Rightarrow> jsstring \<Rightarrow> bool" where
  "startsWith s [] = True"
| "startsWith [] (y # ys) = False"
| "startsWith (x # xs) (y # ys) = (x = y \<and> startsWith xs ys)"

fun includes_str :: "jsstring \<Rightarrow> jsstring \<Rightarrow> bool" where
  "includes_str [] sub = (sub = [])"
| "includes_str (x # xs) sub = (startsWith (x # xs) sub \<or> includes_str xs sub)"

fun split :: "nat \<Rightarrow> jsstring \<Rightarrow> jsstring list" where
  "split sep [] = [[]]"
| "split sep (x # xs) =
     (if x = sep then [] # split sep xs
      else (case split sep xs of [] \<Rightarrow> [[x]] | p # ps \<Rightarrow> (x # p) # ps))"

text \<open>The classes \<^verbatim>\<open>[A-Za-z]\<close> and, under the \<^verbatim>\<open>i\<close> flag, \<^verbatim>\<open>[a-z0-9]\<close>.\<close>

definition is_alpha :: "nat \<Rightarrow> bool" where
  "is_alpha c \<longleftrightarrow> is_upper c \<or> is_lower c"

definition is_alnum :: "nat \<Rightarrow> bool" where
  "is_alnum c \<longleftrightarrow> is_lower c \<or> is_upper c \<or> is_digit c"

text \<open>
  \<^verbatim>\<open>s.indexOf(sub, from)\<close> with nothing for \<^verbatim>\<open>-1\<close>, and \<^verbatim>\<open>xs.findIndex(p)\<close> likewise;
  \<^verbatim>\<open>xs.find(p)\<close> is \<^const>\<open>find\<close>.
\<close>

fun find_sub :: "jsstring \<Rightarrow> jsstring \<Rightarrow> nat \<Rightarrow> nat option" where
  "find_sub [] sub i = (if sub = [] then Some i else None)"
| "find_sub (x # xs) sub i = (if startsWith (x # xs) sub then Some i else find_sub xs sub (Suc i))"

definition indexOf :: "jsstring \<Rightarrow> jsstring \<Rightarrow> nat \<Rightarrow> nat option" where
  "indexOf s sub from = find_sub (drop from s) sub (min from (length s))"

fun findIndex :: "('a \<Rightarrow> bool) \<Rightarrow> 'a list \<Rightarrow> nat option" where
  "findIndex P [] = None"
| "findIndex P (x # xs) = (if P x then Some 0 else map_option Suc (findIndex P xs))"


section \<open>Regular expressions\<close>

text \<open>
  The patterns of \<^verbatim>\<open>worker.js\<close> are built from: one code unit of a class (\<open>One\<close>), a
  quantified class (\<open>Many P lo hi greedy\<close>: at least \<open>lo\<close>, at most \<open>hi\<close> when given,
  greedy or lazy), sequence, alternation, the capturing group whose text the caller
  reads, and the assertions \<^verbatim>\<open>^\<close> and \<^verbatim>\<open>$\<close> (no \<^verbatim>\<open>m\<close> flag is used).

  A state of the matcher is the number of code units consumed so far, the rest of the
  subject and the text of the group. \<open>step r st\<close> lists every state in which \<open>r\<close> can
  leave the matcher when started in \<open>st\<close>, in the order in which a backtracking matcher
  tries them: a greedy quantifier offers its longest run first, an alternation its left
  branch first. The first state of the list is the match at this position.
\<close>

datatype rx =
    One "nat \<Rightarrow> bool"
  | Many "nat \<Rightarrow> bool" nat "nat option" bool
  | Seq rx rx
  | Alt rx rx
  | Group rx
  | Bol
  | Eol
  | Eps

type_synonym mstate = "nat \<times> jsstring \<times> jsstring option"

fun step :: "rx \<Rightarrow> mstate \<Rightarrow> mstate list" where
  "step (One P) (n, rest, cap) =
     (case rest of [] \<Rightarrow> [] | x # xs \<Rightarrow> if P x then [(Suc n, xs, cap)] else [])"
| "step (Many P lo hi greedy) (n, rest, cap) =
     (let run = length (takeWhile P rest);
          most = (case hi of None \<Rightarrow> run | Some h \<Rightarrow> min run h);
          counts = (if greedy then rev [lo..<Suc most] else [lo..<Suc most])
      in map (\<lambda>k. (n + k, drop k rest, cap)) counts)"
| "step (Seq a b) st = concat (map (step b) (step a st))"
| "step (Alt a b) st = step a st @ step b st"
| "step (Group a) (n, rest, cap) =
     map (\<lambda>(n', rest', _). (n', rest', Some (take (n' - n) rest))) (step a (n, rest, cap))"
| "step Bol (n, rest, cap) = (if n = 0 then [(n, rest, cap)] else [])"
| "step Eol (n, rest, cap) = (if rest = [] then [(n, rest, cap)] else [])"
| "step Eps st = [st]"

text \<open>The leftmost position from which the pattern matches, and the match there.\<close>

fun search :: "rx \<Rightarrow> nat \<Rightarrow> jsstring \<Rightarrow> (nat \<times> mstate) option" where
  "search r n [] = (case step r (n, [], None) of [] \<Rightarrow> None | m # _ \<Rightarrow> Some (n, m))"
| "search r n (x # xs) =
     (case step r (n, x # xs, None) of [] \<Rightarrow> search r (Suc n) xs | m # _ \<Rightarrow> Some (n, m))"

text \<open>A match consumes a prefix of the rest: this is what makes the global loops end.\<close>

lemma step_suffix:
  "(n', rest', cap') \<in> set (step r (n, rest, cap)) \<Longrightarrow>
     n \<le> n' \<and> n' - n \<le> length rest \<and> rest' = drop (n' - n) rest"
proof (induction r arbitrary: n rest cap n' rest' cap')
  case (One P)
  then show ?case by (auto split: list.splits if_splits)
next
  case (Many P lo hi greedy)
  have "length (takeWhile P rest) \<le> length rest"
    by (rule length_takeWhile_le)
  with Many show ?case
    by (auto simp: Let_def split: option.splits if_splits)
next
  case (Seq a b)
  from Seq.prems obtain n1 rest1 cap1 where
    a: "(n1, rest1, cap1) \<in> set (step a (n, rest, cap))" and
    b: "(n', rest', cap') \<in> set (step b (n1, rest1, cap1))"
    by auto
  from Seq.IH(1) [OF a] Seq.IH(2) [OF b] show ?case
    by (auto simp: add.commute)
next
  case (Alt a b)
  then show ?case by auto
next
  case (Group a)
  then show ?case by auto
next
  case Bol
  then show ?case by (auto split: if_splits)
next
  case Eol
  then show ?case by (auto split: if_splits)
next
  case Eps
  then show ?case by auto
qed

lemma search_suffix:
  "search r n rest = Some (i, (j, rest', cap)) \<Longrightarrow>
     n \<le> i \<and> i \<le> j \<and> j - n \<le> length rest \<and> rest' = drop (j - n) rest"
proof (induction rest arbitrary: n)
  case Nil
  then have "(j, rest', cap) \<in> set (step r (n, [], None))" and "i = n"
    by (auto split: list.splits)
  from step_suffix [OF this(1)] \<open>i = n\<close> show ?case by simp
next
  case (Cons x xs)
  show ?case
  proof (cases "step r (n, x # xs, None)")
    case Nil
    with Cons.prems have "search r (Suc n) xs = Some (i, (j, rest', cap))" by simp
    from Cons.IH [OF this] have ih: "Suc n \<le> i" "i \<le> j" "j - Suc n \<le> length xs"
      "rest' = drop (j - Suc n) xs" by simp_all
    then have "j - n = Suc (j - Suc n)" by arith
    with ih show ?thesis by simp
  next
    case (Cons m ms)
    with Cons.prems have "(j, rest', cap) \<in> set (step r (n, x # xs, None))" and "i = n"
      by auto
    from step_suffix [OF this(1)] \<open>i = n\<close> show ?thesis by simp
  qed
qed

text \<open>
  The successive matches of a pattern with the \<^verbatim>\<open>g\<close> flag, as \<^verbatim>\<open>replace\<close>, \<^verbatim>\<open>match\<close>
  and a loop over \<^verbatim>\<open>exec\<close> find them: each search starts where the last match ended,
  one code unit further after an empty match.
\<close>

function matches :: "rx \<Rightarrow> nat \<Rightarrow> jsstring \<Rightarrow> (nat \<times> mstate) list" where
  "matches r n rest =
     (case search r n rest of
        None \<Rightarrow> []
      | Some (i, (j, rest', cap)) \<Rightarrow>
          (i, (j, rest', cap)) #
          (if i < j then matches r j rest'
           else (case rest' of [] \<Rightarrow> [] | x # xs \<Rightarrow> matches r (Suc j) xs)))"
  by pat_completeness auto
termination
proof (relation "measure (\<lambda>(r, n, rest). length rest)", goal_cases)
  case 1
  show ?case by simp
next
  case (2 r n rest m i st j st' rest' cap)
  then have "search r n rest = Some (i, (j, rest', cap))" by simp
  from search_suffix [OF this] \<open>i < j\<close> show ?case by auto
next
  case (3 r n rest m i st j st' rest' cap x xs)
  then have "search r n rest = Some (i, (j, x # xs, cap))" by simp
  from search_suffix [OF this] have "x # xs = drop (j - n) rest" by simp
  then have "length (x # xs) \<le> length rest" by (metis length_drop diff_le_self)
  then show ?case by simp
qed


declare matches.simps [simp del]

text \<open>\<^verbatim>\<open>s.replace(r, rep)\<close> without and with the \<^verbatim>\<open>g\<close> flag (no replacement here has a \<^verbatim>\<open>$\<close>).\<close>

definition replace :: "rx \<Rightarrow> jsstring \<Rightarrow> jsstring \<Rightarrow> jsstring" where
  "replace r rep s =
     (case search r 0 s of
        None \<Rightarrow> s
      | Some (i, (j, rest, cap)) \<Rightarrow> take i s @ rep @ rest)"

fun splice :: "nat \<Rightarrow> jsstring \<Rightarrow> (nat \<times> mstate) list \<Rightarrow> jsstring \<Rightarrow> jsstring" where
  "splice pos rest [] rep = rest"
| "splice pos rest ((i, (j, rest', cap)) # ms) rep =
     take (i - pos) rest @ rep @ splice j rest' ms rep"

definition replace_g :: "rx \<Rightarrow> jsstring \<Rightarrow> jsstring \<Rightarrow> jsstring" where
  "replace_g r rep s = splice 0 s (matches r 0 s) rep"

text \<open>A literal, case-sensitive and under the \<^verbatim>\<open>i\<close> flag.\<close>

definition lit :: "string \<Rightarrow> rx" where
  "lit s = foldr (\<lambda>c r. Seq (One (\<lambda>x. x = of_char c)) r) s Eps"

definition lit_i :: "string \<Rightarrow> rx" where
  "lit_i s = foldr (\<lambda>c r. Seq (One (\<lambda>x. canon x = canon (of_char c))) r) s Eps"

text \<open>\<^verbatim>\<open>r.test(s)\<close>, and \<^verbatim>\<open>s.match(r)[1]\<close> for a pattern without the \<^verbatim>\<open>g\<close> flag.\<close>

definition test :: "rx \<Rightarrow> jsstring \<Rightarrow> bool" where
  "test r s \<longleftrightarrow> search r 0 s \<noteq> None"

definition match1 :: "rx \<Rightarrow> jsstring \<Rightarrow> jsstring option" where
  "match1 r s = (case search r 0 s of None \<Rightarrow> None | Some (i, (j, rest, cap)) \<Rightarrow> cap)"


text \<open>What is left when the trailing run of a class is cut off, front to back.\<close>

fun chop :: "(nat \<Rightarrow> bool) \<Rightarrow> jsstring \<Rightarrow> jsstring" where
  "chop P [] = []"
| "chop P (x # xs) = (if list_all P (x # xs) then [] else x # chop P xs)"


section \<open>File names\<close>

text \<open>
  \<^verbatim>\<open>worker.js\<close>, lines 244--246:
  \<^verbatim>\<open>str.replace(/[\/\\:*?"<>|]/g, '_').replace(/^[.\s]+/, '').replace(/[.\s]+$/, '')\<close>.
  The class of the first pattern holds the code units 47 \<^verbatim>\<open>/\<close>, 92 (backslash),
  58 \<^verbatim>\<open>:\<close>, 42 \<^verbatim>\<open>*\<close>, 63 \<^verbatim>\<open>?\<close>, 34 (double quote), 60 \<^verbatim>\<open><\<close>, 62 \<^verbatim>\<open>>\<close> and
  124 \<^verbatim>\<open>|\<close>; 46 is the dot and 95 the underscore.
\<close>

definition reserved :: "nat \<Rightarrow> bool" where
  "reserved c \<longleftrightarrow> c \<in> {47, 92, 58, 42, 63, 34, 60, 62, 124}"

definition dot_or_space :: "nat \<Rightarrow> bool" where
  "dot_or_space c \<longleftrightarrow> c = 46 \<or> is_space c"

definition sanitiseFilename :: "jsstring \<Rightarrow> jsstring" where
  "sanitiseFilename str =
     replace (Seq (Many dot_or_space 1 None True) Eol) []
       (replace (Seq Bol (Many dot_or_space 1 None True)) []
         (replace_g (One reserved) (js ''_'') str))"

text \<open>Removing the leading and the trailing run of a class, said with list functions.\<close>

definition strip :: "(nat \<Rightarrow> bool) \<Rightarrow> jsstring \<Rightarrow> jsstring" where
  "strip P s = rev (dropWhile P (rev (dropWhile P s)))"

text \<open>
  Sanitising as the specification words it: the nine characters are deleted, then the
  ends are trimmed.
\<close>

definition sanitise_by_deleting :: "jsstring \<Rightarrow> jsstring" where
  "sanitise_by_deleting str = strip dot_or_space (filter (\<lambda>c. \<not> reserved c) str)"

section \<open>The platform\<close>

text \<open>
  What the worker's runtime throws, and the fields of a \<^verbatim>\<open>URL\<close> object that the code
  reads. The \<^verbatim>\<open>URL\<close> constructor, \<^verbatim>\<open>fetch\<close> and \<^verbatim>\<open>JSON.parse\<close> are not code of the
  repository: the functions that call them take them as arguments. A host name of a
  \<^verbatim>\<open>URL\<close> object is ASCII (the URL Standard serialises a domain in its ASCII form and
  an IPv6 address in brackets), and on ASCII \<^verbatim>\<open>toLowerCase\<close> maps the letters A to Z.
\<close>

datatype exn = TypeError | SyntaxError | NetworkError

record URL =
  protocol :: jsstring
  hostname :: jsstring
  pathname :: jsstring

definition toLowerCase :: "jsstring \<Rightarrow> jsstring" where
  "toLowerCase s = map (\<lambda>c. if is_upper c then c + 32 else c) s"

text \<open>
  The values that \<^verbatim>\<open>JSON.parse\<close> returns. A value read from a property may also be
  \<^verbatim>\<open>undefined\<close>: a \<open>json option\<close>. An object lists each of its keys once.
\<close>

datatype json =
    JNull
  | JBool bool
  | JNum real
  | JStr jsstring
  | JArr "json list"
  | JObj "(jsstring \<times> json) list"

text \<open>
  Of a response, the code reads \<^verbatim>\<open>ok\<close> and awaits \<^verbatim>\<open>text()\<close>, which may reject.
\<close>

record Response =
  ok :: bool
  text_result :: "exn + jsstring"

text \<open>
  Truthiness; reading a property (of \<^verbatim>\<open>null\<close> and \<^verbatim>\<open>undefined\<close> it throws, and a
  string, a number, a boolean or an array has none of the properties \<^verbatim>\<open>metadata\<close>,
  \<^verbatim>\<open>displayed_lyrics\<close> and \<^verbatim>\<open>prompt\<close> read here); \<^verbatim>\<open>typeof v === 'object'\<close>; calling
  \<^verbatim>\<open>v.trim()\<close>, which only a string has; and \<^verbatim>\<open>a || b\<close>.
\<close>

fun truthy :: "json option \<Rightarrow> bool" where
  "truthy None = False"
| "truthy (Some JNull) = False"
| "truthy (Some (JBool b)) = b"
| "truthy (Some (JNum x)) = (x \<noteq> 0)"
| "truthy (Some (JStr s)) = (s \<noteq> [])"
| "truthy (Some (JArr xs)) = True"
| "truthy (Some (JObj kvs)) = True"

fun property :: "json option \<Rightarrow> string \<Rightarrow> exn + json option" where
  "property None k = Inl TypeError"
| "property (Some JNull) k = Inl TypeError"
| "property (Some (JObj kvs)) k = Inr (map_of kvs (js k))"
| "property (Some v) k = Inr None"

fun typeof_object :: "json option \<Rightarrow> bool" where
  "typeof_object (Some JNull) = True"
| "typeof_object (Some (JArr xs)) = True"
| "typeof_object (Some (JObj kvs)) = True"
| "typeof_object v = False"

fun trim_method :: "json option \<Rightarrow> exn + jsstring" where
  "trim_method (Some (JStr s)) = Inr (trim s)"
| "trim_method v = Inl TypeError"

definition or_else :: "json option \<Rightarrow> json option \<Rightarrow> json option" where
  "or_else a b = (if truthy a then a else b)"

text \<open>
  A computation that may throw gives \<open>Inl\<close> of the exception. \<open>bind\<close> runs the next
  statement unless the first threw; \<open>catch m d\<close> is \<^verbatim>\<open>try { m } catch { return d }\<close>.
\<close>

definition bind :: "exn + 'a \<Rightarrow> ('a \<Rightarrow> exn + 'b) \<Rightarrow> exn + 'b" where
  "bind m f = (case m of Inl e \<Rightarrow> Inl e | Inr x \<Rightarrow> f x)"

definition catch :: "exn + 'a \<Rightarrow> 'a \<Rightarrow> exn + 'a" where
  "catch m dflt = (case m of Inl e \<Rightarrow> Inr dflt | Inr x \<Rightarrow> Inr x)"


section \<open>URL validation\<close>

text \<open>
  \<^verbatim>\<open>worker.js\<close>, lines 251--270. The pattern of line 262 is
  \<^verbatim>\<open>/^(127\.|10\.|192\.168\.|172\.(1[6-9]|2\d|3[01])\.|0\.|169\.254\.|::1|fc|fd|fe80)/\<close>;
  the result is the rejection message, or nothing (\<^verbatim>\<open>null\<close>) for an accepted address.
\<close>

definition private_rx :: rx where
  "private_rx =
     Seq Bol
      (Alt (lit ''127.'')
      (Alt (lit ''10.'')
      (Alt (lit ''192.168.'')
      (Alt (Seq (lit ''172.'')
             (Seq (Alt (Seq (lit ''1'') (One (\<lambda>c. 54 \<le> c \<and> c \<le> 57)))
                  (Alt (Seq (lit ''2'') (One is_digit))
                       (Seq (lit ''3'') (One (\<lambda>c. c = 48 \<or> c = 49)))))
                  (lit ''.'')))
      (Alt (lit ''0.'')
      (Alt (lit ''169.254.'')
      (Alt (lit ''::1'')
      (Alt (lit ''fc'')
      (Alt (lit ''fd'')
           (lit ''fe80''))))))))))"

definition validateUrl :: "(jsstring \<Rightarrow> exn + URL) \<Rightarrow> jsstring \<Rightarrow> jsstring option" where
  "validateUrl newURL url =
     (case newURL url of
        Inl e \<Rightarrow> Some (js ''Invalid URL'')
      | Inr parsed \<Rightarrow>
          if protocol parsed \<noteq> js ''https:'' \<and> protocol parsed \<noteq> js ''http:''
          then Some (js ''Only HTTP/HTTPS URLs are supported'')
          else (let host = toLowerCase (hostname parsed)
                in if test private_rx host
                   then Some (js ''Private or reserved addresses are not allowed'')
                   else if host = js ''localhost'' \<or> host = js ''[::1]''
                   then Some (js ''Private or reserved addresses are not allowed'')
                   else None))"

text \<open>
  The \<^verbatim>\<open>URL\<close> constructor at the addresses named below, as the URL Standard defines
  it there (scheme with its colon, serialised host, path); it throws a \<^verbatim>\<open>TypeError\<close> on
  a string that is no URL. Every other string is left out of the table, and the table
  is only used to run the functions.
\<close>

definition URL_examples :: "(string \<times> string \<times> string \<times> string) list" where
  "URL_examples =
     [(''http://127.0.0.1/x'', ''http:'', ''127.0.0.1'', ''/x''),
      (''http://10.0.0.5/'', ''http:'', ''10.0.0.5'', ''/''),
      (''http://localhost/'', ''http:'', ''localhost'', ''/''),
      (''ftp://example.com/'', ''ftp:'', ''example.com'', ''/''),
      (''https://example.com/page'', ''https:'', ''example.com'', ''/page''),
      (''https://[::1]/'', ''https:'', ''[::1]'', ''/''),
      (''https://[fd00::1]/'', ''https:'', ''[fd00::1]'', ''/''),
      (''https://[fe80::1]/'', ''https:'', ''[fe80::1]'', ''/''),
      (''https://fcbarcelona.com/'', ''https:'', ''fcbarcelona.com'', ''/''),
      (''https://suno.com/song/0123abcd-4567-89ef-0123-456789abcdef'', ''https:'', ''suno.com'',
         ''/song/0123abcd-4567-89ef-0123-456789abcdef''),
      (''ftp://fcbarcelona.com/'', ''ftp:'', ''fcbarcelona.com'', ''/''),
      (''https://fedoraproject.org/'', ''https:'', ''fedoraproject.org'', ''/'')]"

definition newURL_examples :: "jsstring \<Rightarrow> exn + URL" where
  "newURL_examples url =
     (case map_of (map (\<lambda>(u, p, h, q). (js u, \<lparr>protocol = js p, hostname = js h, pathname = js q\<rparr>))
                    URL_examples) url of
        None \<Rightarrow> Inl TypeError
      | Some parsed \<Rightarrow> Inr parsed)"

section \<open>The request handler\<close>





section \<open>The lyrics heuristic\<close>

text \<open>
  \<^verbatim>\<open>worker.js\<close>, lines 121--132. The pattern of line 127 is \<^verbatim>\<open>/^[a-z0-9]+:/i\<close>, the one
  of line 130 \<^verbatim>\<open>/[A-Za-z]{2,}/g\<close>; 10 is the line feed and 58 the colon.
  \<^verbatim>\<open>filter(Boolean)\<close> keeps the strings that are not empty.
\<close>

definition looksLikeSunoLyrics :: "jsstring \<Rightarrow> bool" where
  "looksLikeSunoLyrics text =
     (let t = trim text in
      if length t < 80 then False
      else if includes_str t (js ''{\"'') then False
      else if includes_str t (js '':[\"$'') then False
      else if includes_str t (js ''\"$L'') then False
      else if test (Seq Bol (Seq (Many is_alnum 1 None True) (One (\<lambda>c. c = 58)))) t then False
      else (let lines = filter (\<lambda>l. l \<noteq> []) (map trim (split 10 t)) in
            if length lines < 4 then False
            else (let words = length (matches (Many is_alpha 2 None True) 0 t)
                  in words \<ge> 20)))"



text \<open>
  The maximal runs of a class in a string, those of at least \<open>lo\<close> code units: the
  word tokens of a text are \<open>tokens is_alpha 2\<close>.
\<close>

function tokens :: "(nat \<Rightarrow> bool) \<Rightarrow> nat \<Rightarrow> jsstring \<Rightarrow> jsstring list" where
  "tokens P lo [] = []"
| "tokens P lo (x # xs) =
     (if P x
      then (if lo \<le> length (takeWhile P (x # xs)) then [takeWhile P (x # xs)] else []) @
           tokens P lo (dropWhile P xs)
      else tokens P lo xs)"
  by pat_completeness auto
termination
  by (relation "measure (\<lambda>(P, lo, s). length s)") (auto simp: length_dropWhile_le less_Suc_eq_le)

text \<open>A string that starts with a run of a class, not empty, followed by a colon.\<close>

definition ident_colon :: "(nat \<Rightarrow> bool) \<Rightarrow> jsstring \<Rightarrow> bool" where
  "ident_colon P t \<longleftrightarrow> takeWhile P t \<noteq> [] \<and> startsWith (dropWhile P t) [58]"

text \<open>
  The heuristic as the specification words it: the prefix is a run of lower-case
  letters and digits, and the word tokens are counted without repetition.
\<close>

definition claimed_lyrics :: "jsstring \<Rightarrow> bool" where
  "claimed_lyrics text =
     (let t = trim text in
      80 \<le> length t \<and>
      \<not> includes_str t (js ''{\"'') \<and>
      \<not> includes_str t (js '':[\"$'') \<and> \<not> includes_str t (js ''\"$L'') \<and>
      \<not> ident_colon (\<lambda>c. is_lower c \<or> is_digit c) t \<and>
      4 \<le> length (filter (\<lambda>l. l \<noteq> []) (map trim (split 10 t))) \<and>
      20 \<le> length (remdups (tokens is_alpha 2 t)))"

text \<open>Two texts of four lines: 28 times the word \<^verbatim>\<open>la\<close>, and a chorus of 23 words.\<close>

definition la_text :: jsstring where
  "la_text = js ''la la la la la la la'' @ [10] @ js ''la la la la la la la'' @ [10] @
             js ''la la la la la la la'' @ [10] @ js ''la la la la la la la''"

definition chorus_text :: jsstring where
  "chorus_text =
     js ''Chorus: we sing along tonight'' @ [10] @
     js ''under silver moon and golden stars'' @ [10] @
     js ''every heart beats like distant thunder'' @ [10] @
     js ''while rivers carry our dreams home''"


section \<open>Meta tags\<close>

text \<open>
  \<^verbatim>\<open>worker.js\<close>, lines 51--76. For a tag \<^verbatim>\<open>T\<close> the two patterns of \<^verbatim>\<open>extractMeta\<close> are
  \<^verbatim>\<open><meta[^>]+(?:property|name)=["']T["'][^>]+content=["']([^"']+)["']\<close> and
  \<^verbatim>\<open><meta[^>]+content=["']([^"']+)["'][^>]+(?:property|name)=["']T["']\<close>, both with the
  \<^verbatim>\<open>i\<close> flag; 34 and 39 are the double and the single quote, 62 is \<^verbatim>\<open>>\<close>. The names of
  \<^verbatim>\<open>META_TAGS\<close> hold no character that is special in a pattern.
\<close>

definition quote :: "nat \<Rightarrow> bool" where
  "quote c \<longleftrightarrow> c = 34 \<or> c = 39"

definition not_gt :: "nat \<Rightarrow> bool" where
  "not_gt c \<longleftrightarrow> c \<noteq> 62"

definition meta_attr :: "string \<Rightarrow> rx" where
  "meta_attr tag =
     Seq (Alt (lit_i ''property'') (lit_i ''name''))
    (Seq (lit_i ''='') (Seq (One quote) (Seq (lit_i tag) (One quote))))"

definition meta_content :: rx where
  "meta_content =
     Seq (lit_i ''content='')
    (Seq (One quote) (Seq (Group (Many (\<lambda>c. \<not> quote c) 1 None True)) (One quote)))"

definition extractMeta :: "jsstring \<Rightarrow> string \<Rightarrow> jsstring option" where
  "extractMeta html tag =
     (let patterns =
        [Seq (lit_i ''<meta'') (Seq (Many not_gt 1 None True)
           (Seq (meta_attr tag) (Seq (Many not_gt 1 None True) meta_content))),
         Seq (lit_i ''<meta'') (Seq (Many not_gt 1 None True)
           (Seq meta_content (Seq (Many not_gt 1 None True) (meta_attr tag))))]
      in (case match1 (patterns ! 0) html of
            Some v \<Rightarrow> Some v
          | None \<Rightarrow> match1 (patterns ! 1) html))"

definition META_TAGS :: "string list" where
  "META_TAGS = [''og:audio'', ''og:audio:url'', ''og:audio:secure_url'', ''twitter:player:stream'']"

text \<open>
  The loop of \<^verbatim>\<open>extractAudioInfo\<close>, lines 305--317: the first tag of the list with a
  value that is not empty gives \<^verbatim>\<open>audioUrl\<close> and \<^verbatim>\<open>sourceTag\<close>; with none, the function
  returns \<^verbatim>\<open>null\<close>.
\<close>

fun findAudio :: "jsstring \<Rightarrow> string list \<Rightarrow> (jsstring \<times> string) option" where
  "findAudio html [] = None"
| "findAudio html (tag # tags) =
     (case extractMeta html tag of
        Some audioUrl \<Rightarrow> if audioUrl \<noteq> [] then Some (audioUrl, tag) else findAudio html tags
      | None \<Rightarrow> findAudio html tags)"

text \<open>
  Two pages with one audio tag each: the address of the first has an apostrophe, the
  second has the content before the name.
\<close>

definition apostrophe_page :: jsstring where
  "apostrophe_page = js ''<meta property=\"og:audio\" content=\"https://cdn.x.com/it's.mp3\">''"

definition plain_page :: jsstring where
  "plain_page = js ''<meta content=\"https://cdn.x.com/a.mp3\" name=\"og:audio:url\">''"

section \<open>Lyrics of a Suno song\<close>

text \<open>
  \<^verbatim>\<open>worker.js\<close>, lines 102--215. 92 is the backslash, 34 the double quote, 123 and 125
  the braces, 36 the dollar sign, 47 the slash, 45 the hyphen.
\<close>

definition normaliseSunoEscapes :: "jsstring \<Rightarrow> jsstring" where
  "normaliseSunoEscapes str =
     replace_g (Seq (One (\<lambda>c. c = 92)) (lit ''n'')) [10]
    (replace_g (Seq (One (\<lambda>c. c = 92)) (lit ''u0026'')) (js ''&'')
    (replace_g (Seq (One (\<lambda>c. c = 92)) (lit ''u003e'')) (js ''>'')
    (replace_g (Seq (One (\<lambda>c. c = 92)) (lit ''u003c'')) (js ''<'')
    (replace_g (Seq (One (\<lambda>c. c = 92)) (One (\<lambda>c. c = 34))) [34] str))))"

text \<open>
  The pattern of line 113 is
  \<^verbatim>\<open>/self\.__next_f\.push\(\[1,"([\s\S]*?)"\]\)<\/script>/g\<close>. It matches no empty string
  (\<open>flight_matches_not_empty\<close> below), so the loop over \<^verbatim>\<open>exec\<close> visits the matches that
  \<^const>\<open>matches\<close> lists, and ends.
\<close>

definition flight_rx :: rx where
  "flight_rx =
     Seq (lit ''self.__next_f.push([1,'') (Seq (One (\<lambda>c. c = 34))
    (Seq (Group (Many (\<lambda>c. True) 0 None False))
    (Seq (One (\<lambda>c. c = 34)) (lit ''])</script>''))))"

definition extractSunoFlightChunks :: "jsstring \<Rightarrow> jsstring list" where
  "extractSunoFlightChunks html =
     map (\<lambda>(i, (j, rest, m1)). normaliseSunoEscapes (case m1 of None \<Rightarrow> [] | Some c \<Rightarrow> c))
       (matches flight_rx 0 html)"

text \<open>
  The loop of \<^verbatim>\<open>extractJsonObject\<close>, lines 137--148, from the code unit at index \<open>i\<close>
  on: the index of the brace that closes the object, if there is one.
\<close>

fun scanObject :: "jsstring \<Rightarrow> nat \<Rightarrow> int \<Rightarrow> bool \<Rightarrow> bool \<Rightarrow> nat option" where
  "scanObject [] i depth inStr esc = None"
| "scanObject (ch # rest) i depth inStr esc =
     (if inStr then
        (if esc then scanObject rest (Suc i) depth inStr False
         else if ch = 92 then scanObject rest (Suc i) depth inStr True
         else if ch = 34 then scanObject rest (Suc i) depth False esc
         else scanObject rest (Suc i) depth inStr esc)
      else if ch = 34 then scanObject rest (Suc i) depth True esc
      else if ch = 123 then scanObject rest (Suc i) (depth + 1) inStr esc
      else if ch = 125 then
        (if depth - 1 = 0 then Some i else scanObject rest (Suc i) (depth - 1) inStr esc)
      else scanObject rest (Suc i) depth inStr esc)"

definition extractJsonObject :: "jsstring \<Rightarrow> nat \<Rightarrow> jsstring option" where
  "extractJsonObject src pos =
     (if \<not> (pos < length src \<and> src ! pos = 123) then None
      else (case scanObject (drop pos src) pos 0 False False of
              None \<Rightarrow> None
            | Some i \<Rightarrow> Some (take (i + 1 - pos) (drop pos src))))"

text \<open>The patterns \<^verbatim>\<open>/^\$\d+$/\<close> and \<^verbatim>\<open>/^\[instrumental\]$/i\<close>.\<close>

definition token_rx :: rx where
  "token_rx = Seq Bol (Seq (One (\<lambda>c. c = 36)) (Seq (Many is_digit 1 None True) Eol))"

definition instrumental_rx :: rx where
  "instrumental_rx = Seq Bol (Seq (lit_i ''[instrumental]'') Eol)"

definition resolveSunoPromptToken :: "jsstring \<Rightarrow> jsstring \<Rightarrow> jsstring option" where
  "resolveSunoPromptToken html token =
     (if \<not> test token_rx token then None
      else (let chunks = extractSunoFlightChunks html;
                id' = drop 1 token;
                ti = findIndex (\<lambda>c. includes_str c (id' @ js '':T'') \<or>
                                     includes_str c (id' @ js '':'')) chunks;
                after_token = (case ti of
                                 None \<Rightarrow> None
                               | Some ti \<Rightarrow> find looksLikeSunoLyrics (take 7 (drop (ti + 1) chunks)));
                ci = findIndex (\<lambda>c. includes_str c (js ''\"clip\":{'')) chunks;
                before_clip = (case ci of
                                 None \<Rightarrow> None
                               | Some ci \<Rightarrow>
                                   if ci > 0 \<and> looksLikeSunoLyrics (chunks ! (ci - 1))
                                   then Some (chunks ! (ci - 1)) else None);
                fallback = find looksLikeSunoLyrics chunks
            in (case after_token of
                  Some c \<Rightarrow> Some (trim c)
                | None \<Rightarrow>
                   (case before_clip of
                      Some c \<Rightarrow> Some (trim c)
                    | None \<Rightarrow> map_option trim fallback))))"

text \<open>\<^verbatim>\<open>s || null\<close> for a string \<open>s\<close>.\<close>

definition non_empty :: "jsstring \<Rightarrow> jsstring option" where
  "non_empty s = (if s = [] then None else Some s)"

text \<open>
  Lines 178, 179 and 183 of \<^verbatim>\<open>extractSunoLyrics\<close>: the values of \<^verbatim>\<open>meta\<close>,
  \<^verbatim>\<open>displayed\<close> and \<^verbatim>\<open>prompt\<close>. \<open>extractSunoLyrics_try\<close> is the body of the
  \<^verbatim>\<open>try\<close> block, lines 177--188.
\<close>

definition metadata_of :: "json \<Rightarrow> exn + json option" where
  "metadata_of clip =
     bind (property (Some clip) ''metadata'') (\<lambda>m.
     Inr (if truthy m \<and> typeof_object m then m else Some (JObj [])))"

definition displayed_of :: "json \<Rightarrow> json option \<Rightarrow> exn + jsstring option" where
  "displayed_of clip meta =
     bind (property (Some clip) ''displayed_lyrics'') (\<lambda>d1.
     bind (if truthy d1 then Inr d1 else property meta ''displayed_lyrics'') (\<lambda>d2.
     bind (trim_method (or_else d2 (Some (JStr [])))) (\<lambda>d3.
     Inr (non_empty d3))))"

definition prompt_of :: "json option \<Rightarrow> exn + jsstring option" where
  "prompt_of meta =
     bind (property meta ''prompt'') (\<lambda>p1.
     bind (trim_method (or_else p1 (Some (JStr [])))) (\<lambda>p2.
     Inr (non_empty p2)))"

definition extractSunoLyrics_try ::
  "(jsstring \<Rightarrow> exn + json) \<Rightarrow> jsstring \<Rightarrow> jsstring \<Rightarrow> exn + jsstring option" where
  "extractSunoLyrics_try JSON_parse html clipJson =
     bind (JSON_parse clipJson) (\<lambda>clip.
     bind (metadata_of clip) (\<lambda>meta.
     bind (displayed_of clip meta) (\<lambda>displayed.
     if (case displayed of
           None \<Rightarrow> False
         | Some d \<Rightarrow> \<not> test token_rx d \<and> \<not> test instrumental_rx d)
     then Inr (map_option (take 20000) displayed)
     else bind (prompt_of meta) (\<lambda>prompt.
       (case prompt of
          None \<Rightarrow> Inr None
        | Some p \<Rightarrow>
            if test instrumental_rx p then Inr None
            else (let resolved = (if test token_rx p then resolveSunoPromptToken html p
                                  else Some p)
                  in (case resolved of
                        None \<Rightarrow> Inr None
                      | Some r \<Rightarrow> if r = [] \<or> test token_rx r then Inr None
                                 else Inr (Some (take 20000 r)))))))))"

definition extractSunoLyrics :: "(jsstring \<Rightarrow> exn + json) \<Rightarrow> jsstring \<Rightarrow> exn + jsstring option" where
  "extractSunoLyrics JSON_parse html =
     (let norm = normaliseSunoEscapes html in
      case indexOf norm (js ''\"clip\":{'') 0 of
        None \<Rightarrow> Inr None
      | Some clipIdx \<Rightarrow>
         (case indexOf norm (js ''{'') (clipIdx + length (js ''\"clip\":'')) of
            None \<Rightarrow> Inr None
          | Some objStart \<Rightarrow>
             (case extractJsonObject norm objStart of
                None \<Rightarrow> Inr None
              | Some clipJson \<Rightarrow>
                  if clipJson = [] then Inr None
                  else catch (extractSunoLyrics_try JSON_parse html clipJson) None)))"

text \<open>
  The pattern of line 205 is \<^verbatim>\<open>/^[0-9a-fA-F-]{36}$/\<close>. \<open>fetchSunoLyrics_try\<close> is the body
  of the \<^verbatim>\<open>try\<close> block of \<^verbatim>\<open>fetchSunoLyrics\<close>, lines 200--211; the value of the
  function is the value its promise resolves to, or \<open>Inl\<close> if the promise rejects.
\<close>

definition uuid_rx :: rx where
  "uuid_rx =
     Seq Bol (Seq (Many (\<lambda>c. is_digit c \<or> (97 \<le> c \<and> c \<le> 102) \<or> (65 \<le> c \<and> c \<le> 70) \<or> c = 45)
                    36 (Some 36) True) Eol)"

definition fetchSunoLyrics_try ::
  "(jsstring \<Rightarrow> exn + URL) \<Rightarrow> (jsstring \<Rightarrow> exn + Response) \<Rightarrow> (jsstring \<Rightarrow> exn + json) \<Rightarrow>
   jsstring \<Rightarrow> exn + jsstring option" where
  "fetchSunoLyrics_try newURL fetch JSON_parse pageUrl =
     bind (newURL pageUrl) (\<lambda>u.
     if hostname u \<noteq> js ''suno.com'' \<and> hostname u \<noteq> js ''www.suno.com'' then Inr None
     else
     (case filter (\<lambda>p. p \<noteq> []) (split 47 (pathname u)) of
        part0 # id' # _ \<Rightarrow>
          if part0 \<noteq> js ''song'' then Inr None
          else if \<not> test uuid_rx id' then Inr None
          else
          bind (fetch (js ''https://suno.com/embed/'' @ id')) (\<lambda>res.
          if \<not> ok res then Inr None
          else
          bind (text_result res) (\<lambda>html.
          extractSunoLyrics JSON_parse html))
      | _ \<Rightarrow> Inr None))"

definition fetchSunoLyrics ::
  "(jsstring \<Rightarrow> exn + URL) \<Rightarrow> (jsstring \<Rightarrow> exn + Response) \<Rightarrow> (jsstring \<Rightarrow> exn + json) \<Rightarrow>
   jsstring \<Rightarrow> exn + jsstring option" where
  "fetchSunoLyrics newURL fetch JSON_parse pageUrl =
     catch (fetchSunoLyrics_try newURL fetch JSON_parse pageUrl) None"


text \<open>
  To run the functions: an embed server that cannot be reached and one that answers
  with a given status and body; the address of a song; four embed pages with a clip.
  \<open>JSON_examples\<close> is \<^verbatim>\<open>JSON.parse\<close> at two objects; every other string is left out
  of the table and treated as malformed. The object of \<open>clip_page\<close> is malformed for
  \<^verbatim>\<open>JSON.parse\<close> itself: once \<^verbatim>\<open>\n\<close> is replaced, its string holds a line feed. The
  object of \<open>open_page\<close> is not closed.
\<close>

definition embed_down :: "jsstring \<Rightarrow> exn + Response" where
  "embed_down url = Inl NetworkError"

definition embed_status :: "bool \<Rightarrow> exn + jsstring \<Rightarrow> jsstring \<Rightarrow> exn + Response" where
  "embed_status status body url = Inr \<lparr>ok = status, text_result = body\<rparr>"

definition song_url :: jsstring where
  "song_url = js ''https://suno.com/song/0123abcd-4567-89ef-0123-456789abcdef''"

definition clip_page :: jsstring where
  "clip_page = js ''x={\"clip\":{\"displayed_lyrics\":\"la'' @ [92, 110] @ js ''la\"}}''"

definition lyric_page :: jsstring where
  "lyric_page = js ''x={\"clip\":{\"displayed_lyrics\":\"la la\"}}''"

definition number_page :: jsstring where
  "number_page = js ''x={\"clip\":{\"displayed_lyrics\":5}}''"

definition open_page :: jsstring where
  "open_page = js ''x={\"clip\":{\"displayed_lyrics\":\"la la\"''"

definition JSON_examples :: "jsstring \<Rightarrow> exn + json" where
  "JSON_examples s =
     (if s = js ''{\"displayed_lyrics\":\"la la\"}''
      then Inr (JObj [(js ''displayed_lyrics'', JStr (js ''la la''))])
      else if s = js ''{\"displayed_lyrics\":5}''
      then Inr (JObj [(js ''displayed_lyrics'', JNum 5)])
      else Inl SyntaxError)"


section \<open>Properties of the rate limiter\<close>

lemma calls_in_window:
  assumes "m ip = Some \<lparr>start = t0, count = c\<rparr>"
    and "\<forall>t\<in>set ts. t - t0 \<le> RATE_LIMIT_WINDOW"
  shows "calls ts ip m =
    (map (\<lambda>i. c + Suc i \<le> RATE_LIMIT_MAX) [0..<length ts],
     m(ip \<mapsto> \<lparr>start = t0, count = c + length ts\<rparr>))"
  using assms
proof (induction ts arbitrary: m c)
  case Nil
  then show ?case by (simp add: map_upd_triv)
next
  case (Cons t ts)
  let ?m' = "m(ip \<mapsto> \<lparr>start = t0, count = Suc c\<rparr>)"
  from Cons.prems have step: "checkRateLimit t ip m = (Suc c \<le> RATE_LIMIT_MAX, ?m')"
    by (simp add: checkRateLimit_def)
  have "calls ts ip ?m' =
    (map (\<lambda>i. Suc c + Suc i \<le> RATE_LIMIT_MAX) [0..<length ts],
     ?m'(ip \<mapsto> \<lparr>start = t0, count = Suc c + length ts\<rparr>))"
    using Cons.prems by (intro Cons.IH) simp_all
  then have "calls (t # ts) ip m =
    ((Suc c \<le> RATE_LIMIT_MAX) # map (\<lambda>i. Suc c + Suc i \<le> RATE_LIMIT_MAX) [0..<length ts],
     m(ip \<mapsto> \<lparr>start = t0, count = Suc c + length ts\<rparr>))"
    by (simp add: step del: upt_Suc)
  moreover have "map (\<lambda>i. c + Suc i \<le> RATE_LIMIT_MAX) [0..<length (t # ts)] =
    (Suc c \<le> RATE_LIMIT_MAX) # map (\<lambda>i. Suc c + Suc i \<le> RATE_LIMIT_MAX) [0..<length ts]"
    by (simp add: upt_conv_Cons map_Suc_upt [symmetric] del: upt_Suc)
  ultimately show ?case
    by (simp only: length_Cons add_Suc add_Suc_right)
qed

lemma checkRateLimit_other_client:
  "ip' \<noteq> ip \<Longrightarrow> snd (checkRateLimit now ip' m) ip = m ip"
  by (simp add: checkRateLimit_def Let_def split: option.splits)

text \<open>
  C2. A client whose window opens at \<open>t0\<close> (no entry yet, or an entry whose window has
  run out) and who calls again at the readings \<open>ts\<close>, none of them more than 60 seconds
  after \<open>t0\<close>: the call number \<open>k\<close> (counted from 0) is admitted exactly when \<open>k < 15\<close>,
  and the stored count is the number of calls made, rejected ones included. The next
  call more than 60 seconds after \<open>t0\<close> is admitted and stores a count of 1.
\<close>

theorem checkRateLimit_window:
  assumes "rateLimitMap ip = None \<or>
           (\<exists>e. rateLimitMap ip = Some e \<and> t0 - start e > RATE_LIMIT_WINDOW)"
    and "\<forall>t\<in>set ts. t - t0 \<le> RATE_LIMIT_WINDOW"
    and "t' - t0 > RATE_LIMIT_WINDOW"
  shows "calls (t0 # ts) ip rateLimitMap =
           (map (\<lambda>k. k < RATE_LIMIT_MAX) [0..<Suc (length ts)],
            rateLimitMap(ip \<mapsto> \<lparr>start = t0, count = Suc (length ts)\<rparr>)) \<and>
         checkRateLimit t' ip (snd (calls (t0 # ts) ip rateLimitMap)) =
           (True, rateLimitMap(ip \<mapsto> \<lparr>start = t', count = 1\<rparr>))"
proof -
  let ?m1 = "rateLimitMap(ip \<mapsto> \<lparr>start = t0, count = 1\<rparr>)"
  from assms(1) have first: "checkRateLimit t0 ip rateLimitMap = (True, ?m1)"
    by (auto simp: checkRateLimit_def)
  have rest: "calls ts ip ?m1 =
    (map (\<lambda>i. 1 + Suc i \<le> RATE_LIMIT_MAX) [0..<length ts],
     ?m1(ip \<mapsto> \<lparr>start = t0, count = 1 + length ts\<rparr>))"
    using assms(2) by (intro calls_in_window) simp_all
  have lst: "map (\<lambda>k. k < RATE_LIMIT_MAX) [0..<Suc (length ts)] =
    True # map (\<lambda>i. 1 + Suc i \<le> RATE_LIMIT_MAX) [0..<length ts]"
    by (auto simp: upt_conv_Cons map_Suc_upt [symmetric] RATE_LIMIT_MAX_def simp del: upt_Suc)
  have all: "calls (t0 # ts) ip rateLimitMap =
    (map (\<lambda>k. k < RATE_LIMIT_MAX) [0..<Suc (length ts)],
     rateLimitMap(ip \<mapsto> \<lparr>start = t0, count = Suc (length ts)\<rparr>))"
    using first rest lst by (simp del: upt_Suc)
  moreover have "checkRateLimit t' ip (rateLimitMap(ip \<mapsto> \<lparr>start = t0, count = Suc (length ts)\<rparr>)) =
    (True, rateLimitMap(ip \<mapsto> \<lparr>start = t', count = 1\<rparr>))"
    using assms(3) by (simp add: checkRateLimit_def)
  ultimately show ?thesis by simp
qed

theorem checkRateLimit_window_witness:
  "calls [0, 1000, 2000, 3000, 4000, 5000, 6000, 7000, 8000, 9000, 10000, 11000, 12000,
          13000, 14000, 59000, 60000] ''203.0.113.7'' Map.empty =
     ([True, True, True, True, True, True, True, True, True, True, True, True, True, True,
       True, False, False],
      [''203.0.113.7'' \<mapsto> \<lparr>start = 0, count = 17\<rparr>]) \<and>
   checkRateLimit 60001 ''203.0.113.7''
     (snd (calls [0, 1000, 2000, 3000, 4000, 5000, 6000, 7000, 8000, 9000, 10000, 11000,
                  12000, 13000, 14000, 59000, 60000] ''203.0.113.7'' Map.empty)) =
     (True, [''203.0.113.7'' \<mapsto> \<lparr>start = 60001, count = 1\<rparr>])"
proof -
  let ?ts = "[1000, 2000, 3000, 4000, 5000, 6000, 7000, 8000, 9000, 10000, 11000, 12000,
              13000, 14000, 59000, 60000] :: int list"
  have fresh: "(Map.empty :: string \<rightharpoonup> rate_entry) ''203.0.113.7'' = None \<or>
      (\<exists>e. (Map.empty :: string \<rightharpoonup> rate_entry) ''203.0.113.7'' = Some e \<and>
           0 - start e > RATE_LIMIT_WINDOW)"
    by simp
  have inside: "\<forall>t\<in>set ?ts. t - 0 \<le> RATE_LIMIT_WINDOW"
    by (simp add: RATE_LIMIT_WINDOW_def)
  have after: "60001 - 0 > RATE_LIMIT_WINDOW"
    by (simp add: RATE_LIMIT_WINDOW_def)
  show ?thesis
    using checkRateLimit_window [of Map.empty "''203.0.113.7''" 0 ?ts 60001, OF fresh inside after]
    by (simp add: RATE_LIMIT_MAX_def RATE_LIMIT_WINDOW_def checkRateLimit_def eval_nat_numeral
        upt_conv_Cons del: calls.simps upt_Suc)
qed

section \<open>Properties of the response cache\<close>

lemma map_of_evict:
  "map_of (evict now visit cache) k =
     (if \<exists>v. (k, v) \<in> set visit \<and> now - time v > CACHE_TTL then None else map_of cache k)"
proof (induction visit arbitrary: cache)
  case Nil
  show ?case by simp
next
  case (Cons p visit)
  obtain k' v' where p: "p = (k', v')" by (cases p)
  show ?case
    unfolding p by (auto simp: Cons.IH delete_conv')
qed

lemma distinct_evict:
  "distinct (map fst cache) \<Longrightarrow> distinct (map fst (evict now visit cache))"
proof (induction visit arbitrary: cache)
  case Nil
  then show ?case by simp
next
  case (Cons p visit)
  obtain k' v' where p: "p = (k', v')" by (cases p)
  from Cons.prems show ?case
    unfolding p by (auto intro!: Cons.IH distinct_delete)
qed

lemma map_of_evict_all:
  assumes "distinct (map fst cache)"
  shows "map_of (evict now cache cache) k =
     (case map_of cache k of
        None \<Rightarrow> None
      | Some e \<Rightarrow> if now - time e > CACHE_TTL then None else Some e)"
proof (cases "map_of cache k")
  case None
  then show ?thesis by (simp add: map_of_evict)
next
  case (Some e)
  have "(\<exists>v. (k, v) \<in> set cache \<and> now - time v > CACHE_TTL) \<longleftrightarrow> now - time e > CACHE_TTL"
  proof -
    have "(k, v) \<in> set cache \<longleftrightarrow> v = e" for v
      using map_of_eq_Some_iff [OF assms, of k v] Some by auto
    then show ?thesis by simp
  qed
  with Some show ?thesis by (simp add: map_of_evict)
qed

lemma size_cache:
  assumes "distinct (map fst cache)"
  shows "card (dom (map_of cache)) = length cache"
  using assms by (simp add: dom_map_of_conv_image_fst distinct_card flip: set_map)

lemma distinct_getCached:
  "distinct (map fst cache) \<Longrightarrow> distinct (map fst (snd (getCached now url cache)))"
  by (simp add: getCached_def distinct_delete split: option.splits)

lemma distinct_setCache:
  "distinct (map fst cache) \<Longrightarrow> distinct (map fst (setCache t1 t2 url d cache))"
  by (simp add: setCache_def Let_def distinct_evict distinct_update)

lemma map_of_setCache:
  assumes "distinct (map fst cache)"
  shows "map_of (setCache now_set now_sweep url d cache) k =
     (let m = (map_of cache)(url \<mapsto> \<lparr>data = d, time = now_set\<rparr>)
      in if card (dom m) > 200
         then (case m k of
                 None \<Rightarrow> None
               | Some e \<Rightarrow> if now_sweep - time e > CACHE_TTL then None else Some e)
         else m k)"
proof -
  let ?c = "AList.update url \<lparr>data = d, time = now_set\<rparr> cache"
  have d: "distinct (map fst ?c)" using assms by (simp add: distinct_update)
  have m: "map_of ?c = (map_of cache)(url \<mapsto> \<lparr>data = d, time = now_set\<rparr>)"
    by (rule update_conv')
  have "card (dom (map_of ?c)) = length ?c" using d by (rule size_cache)
  then show ?thesis
    using map_of_evict_all [OF d, of now_sweep k]
    by (simp add: setCache_def Let_def m)
qed

text \<open>
  C4. For a cache with distinct keys (every cache built by \<^const>\<open>setCache\<close> and
  \<^const>\<open>getCached\<close> from the empty one): \<^const>\<open>getCached\<close> returns a value exactly
  when the key has an entry younger than \<^const>\<open>CACHE_TTL\<close>, and then the stored one; on
  an entry that is not younger it returns nothing and the entry is gone afterwards;
  \<^const>\<open>setCache\<close> stores the entry with its time stamp and, when the map then holds
  more than 200 entries, drops exactly the entries older than \<^const>\<open>CACHE_TTL\<close> at the
  second clock reading. Both keep the keys distinct.
\<close>

theorem cache_contract:
  assumes "distinct (map fst cache)"
  shows "(fst (getCached now url cache) = Some d \<longleftrightarrow>
            (\<exists>e. map_of cache url = Some e \<and> data e = d \<and> now - time e < CACHE_TTL)) \<and>
         ((\<exists>e. map_of cache url = Some e \<and> \<not> now - time e < CACHE_TTL) \<longrightarrow>
            fst (getCached now url cache) = None \<and>
            map_of (snd (getCached now url cache)) = (map_of cache)(url := None)) \<and>
         (\<forall>k. map_of (setCache now_set now_sweep url' d' cache) k =
            (let m = (map_of cache)(url' \<mapsto> \<lparr>data = d', time = now_set\<rparr>)
             in if card (dom m) > 200
                then (case m k of
                        None \<Rightarrow> None
                      | Some e \<Rightarrow> if now_sweep - time e > CACHE_TTL then None else Some e)
                else m k)) \<and>
         distinct (map fst (snd (getCached now url cache))) \<and>
         distinct (map fst (setCache now_set now_sweep url' d' cache))"
proof (intro conjI allI)
  show "fst (getCached now url cache) = Some d \<longleftrightarrow>
        (\<exists>e. map_of cache url = Some e \<and> data e = d \<and> now - time e < CACHE_TTL)"
    by (auto simp: getCached_def split: option.splits)
  show "(\<exists>e. map_of cache url = Some e \<and> \<not> now - time e < CACHE_TTL) \<longrightarrow>
        fst (getCached now url cache) = None \<and>
        map_of (snd (getCached now url cache)) = (map_of cache)(url := None)"
    by (auto simp: getCached_def delete_conv')
  show "distinct (map fst (snd (getCached now url cache)))"
    using assms by (rule distinct_getCached)
  show "distinct (map fst (setCache now_set now_sweep url' d' cache))"
    using assms by (rule distinct_setCache)
next
  fix k
  show "map_of (setCache now_set now_sweep url' d' cache) k =
            (let m = (map_of cache)(url' \<mapsto> \<lparr>data = d', time = now_set\<rparr>)
             in if card (dom m) > 200
                then (case m k of
                        None \<Rightarrow> None
                      | Some e \<Rightarrow> if now_sweep - time e > CACHE_TTL then None else Some e)
                else m k)"
    using assms by (rule map_of_setCache)
qed

lemma distinct_old_cache: "distinct (map fst (old_cache n))"
  by (simp add: old_cache_def comp_def)

lemma map_of_old_cache:
  "map_of (old_cache n) k = (if k < n then Some \<lparr>data = ''old'', time = 0\<rparr> else None)"
  unfolding old_cache_def by (induction n) (auto simp: map_add_def split: option.splits)

lemma dom_old_cache: "dom (map_of (old_cache n)) = {0..<n}"
  by (auto simp: map_of_old_cache split: if_splits)

theorem cache_contract_witness:
  "distinct (map fst (old_cache 200)) \<and>
   fst (getCached 1000 7 (old_cache 200)) = Some ''old'' \<and>
   fst (getCached 300000 7 (old_cache 200)) = None \<and>
   map_of (snd (getCached 300000 7 (old_cache 200))) 7 = None \<and>
   map_of (setCache 300001 300002 200 ''new'' (old_cache 200)) 7 = None \<and>
   map_of (setCache 300001 300002 200 ''new'' (old_cache 200)) 200 =
     Some \<lparr>data = ''new'', time = 300001\<rparr> \<and>
   map_of (setCache 300001 300002 7 ''new'' (old_cache 200)) 8 =
     Some \<lparr>data = ''old'', time = 0\<rparr>"
proof -
  let ?c = "old_cache 200"
  note c = cache_contract [OF distinct_old_cache [of 200]]
  have get_iff: "fst (getCached now url ?c) = Some d \<longleftrightarrow>
      (\<exists>e. map_of ?c url = Some e \<and> data e = d \<and> now - time e < CACHE_TTL)"
    for now url d by (rule c [THEN conjunct1])
  have stale: "(\<exists>e. map_of ?c url = Some e \<and> \<not> now - time e < CACHE_TTL) \<longrightarrow>
      fst (getCached now url ?c) = None \<and>
      map_of (snd (getCached now url ?c)) = (map_of ?c)(url := None)"
    for now url by (rule c [THEN conjunct2, THEN conjunct1])
  have set: "map_of (setCache now_set now_sweep url' d' ?c) k =
      (let m = (map_of ?c)(url' \<mapsto> \<lparr>data = d', time = now_set\<rparr>)
       in if card (dom m) > 200
          then (case m k of
                  None \<Rightarrow> None
                | Some e \<Rightarrow> if now_sweep - time e > CACHE_TTL then None else Some e)
          else m k)"
    for now_set now_sweep url' d' k
    by (rule c [THEN conjunct2, THEN conjunct2, THEN conjunct1, rule_format])
  have 1: "fst (getCached 1000 7 ?c) = Some ''old''"
    by (simp add: get_iff map_of_old_cache CACHE_TTL_def)
  have 2: "fst (getCached 300000 7 ?c) = None \<and> map_of (snd (getCached 300000 7 ?c)) 7 = None"
    using stale [of 7 300000] by (simp add: map_of_old_cache CACHE_TTL_def)
  have 3: "map_of (setCache 300001 300002 200 ''new'' ?c) 7 = None"
    by (simp add: set dom_old_cache map_of_old_cache CACHE_TTL_def Let_def)
  have 4: "map_of (setCache 300001 300002 200 ''new'' ?c) 200 =
      Some \<lparr>data = ''new'', time = 300001\<rparr>"
    by (simp add: set dom_old_cache map_of_old_cache CACHE_TTL_def Let_def)
  have 5: "map_of (setCache 300001 300002 7 ''new'' ?c) 8 = Some \<lparr>data = ''old'', time = 0\<rparr>"
    by (simp add: set dom_old_cache map_of_old_cache CACHE_TTL_def Let_def insert_absorb)
  show ?thesis using distinct_old_cache [of 200] 1 2 3 4 5 by simp
qed

section \<open>Properties of the patterns used\<close>

subsection \<open>A class replaced everywhere\<close>

lemma matches_Nil_One: "matches (One P) n [] = []"
  by (subst matches.simps) simp

lemma matches_Cons_One:
  "matches (One P) n (x # xs) =
     (if P x then [(n, (Suc n, xs, None))] else []) @ matches (One P) (Suc n) xs"
proof (cases "P x")
  case True
  then show ?thesis by (subst matches.simps) simp
next
  case False
  then have "search (One P) n (x # xs) = search (One P) (Suc n) xs" by simp
  then have "matches (One P) n (x # xs) = matches (One P) (Suc n) xs"
    by (subst matches.simps, subst (2) matches.simps) simp
  with False show ?thesis by simp
qed

lemma matches_start:
  "matches r n rest = m # ms \<Longrightarrow> n \<le> fst m"
  by (subst (asm) matches.simps) (auto split: option.splits dest: search_suffix)

lemma splice_Cons:
  "ms = [] \<or> n < fst (hd ms) \<Longrightarrow> splice n (x # xs) ms rep = x # splice (Suc n) xs ms rep"
proof (cases ms)
  case Nil
  then show ?thesis by simp
next
  case (Cons m ms')
  assume "ms = [] \<or> n < fst (hd ms)"
  with Cons have "n < fst m" by simp
  obtain i j rest' cap where m: "m = (i, (j, rest', cap))" by (cases m) auto
  from \<open>n < fst m\<close> m have "i - n = Suc (i - Suc n)" by simp
  with Cons m show ?thesis by simp
qed

lemma replace_g_One_aux:
  "splice n s (matches (One P) n s) rep = concat (map (\<lambda>x. if P x then rep else [x]) s)"
proof (induction s arbitrary: n)
  case Nil
  show ?case by (simp add: matches_Nil_One)
next
  case (Cons x xs)
  show ?case
  proof (cases "P x")
    case True
    then show ?thesis by (simp add: matches_Cons_One Cons.IH)
  next
    case False
    have "matches (One P) (Suc n) xs = [] \<or> n < fst (hd (matches (One P) (Suc n) xs))"
      by (cases "matches (One P) (Suc n) xs") (auto dest: matches_start)
    from splice_Cons [OF this] False show ?thesis
      by (simp add: matches_Cons_One Cons.IH)
  qed
qed

lemma replace_g_One:
  "replace_g (One P) [c] s = map (\<lambda>x. if P x then c else x) s"
proof -
  have "concat (map (\<lambda>x. if P x then [c] else [x]) s) = map (\<lambda>x. if P x then c else x) s"
    by (induction s) simp_all
  then show ?thesis by (simp add: replace_g_def replace_g_One_aux)
qed

subsection \<open>A leading run removed\<close>

lemma step_Many_greedy:
  "step (Many P lo None True) (n, s, cap) =
     (if length (takeWhile P s) < lo then []
      else (n + length (takeWhile P s), dropWhile P s, cap) #
           map (\<lambda>k. (n + k, drop k s, cap)) (rev [lo..<length (takeWhile P s)]))"
proof -
  have "drop (length (takeWhile P s)) s = dropWhile P s"
    by (simp add: dropWhile_eq_drop)
  then show ?thesis by (simp add: Let_def)
qed

lemma search_Bol:
  "search (Seq Bol r) n s =
     (if n = 0 then (case step r (0, s, None) of [] \<Rightarrow> None | m # _ \<Rightarrow> Some (0, m)) else None)"
proof (induction s arbitrary: n)
  case Nil
  show ?case by (auto split: list.splits)
next
  case (Cons x xs)
  show ?case by (auto simp: Cons.IH split: list.splits)
qed

lemma test_Bol:
  "test (Seq Bol r) s \<longleftrightarrow> step r (0, s, None) \<noteq> []"
  by (simp add: test_def search_Bol split: list.splits)


lemma replace_leading:
  "replace (Seq Bol (Many P 1 None True)) [] s = dropWhile P s"
proof (cases "takeWhile P s = []")
  case True
  then have "dropWhile P s = s" by (metis takeWhile_dropWhile_id append_Nil)
  with True show ?thesis
    by (simp add: replace_def search_Bol step_Many_greedy del: step.simps)
next
  case False
  then have "\<not> length (takeWhile P s) < 1" by (cases "takeWhile P s") auto
  then show ?thesis
    by (simp add: replace_def search_Bol step_Many_greedy del: step.simps)
qed

subsection \<open>A trailing run removed\<close>

lemma set_step_Many:
  "set (step (Many P lo None g) (n, s, cap)) =
     {(n + k, drop k s, cap) | k. lo \<le> k \<and> k \<le> length (takeWhile P s)}"
  by (auto simp: Let_def)

lemma set_step_trailing:
  "set (step (Seq (Many P lo None g) Eol) (n, s, cap)) =
     (if lo \<le> length s \<and> list_all P s then {(n + length s, [], cap)} else {})"
proof -
  have le: "length (takeWhile P s) \<le> length s" by (rule length_takeWhile_le)
  have all: "length (takeWhile P s) = length s \<longleftrightarrow> list_all P s"
    by (metis list_all_iff takeWhile_eq_all_conv length_takeWhile_le takeWhile_eq_take take_all_iff order_refl)
  have "set (step (Seq (Many P lo None g) Eol) (n, s, cap)) =
     {(n + k, drop k s, cap) | k. lo \<le> k \<and> k \<le> length (takeWhile P s) \<and> drop k s = []}"
    unfolding step.simps(3) set_concat set_map set_step_Many by (auto split: if_splits)
  also have "\<dots> = (if lo \<le> length s \<and> list_all P s then {(n + length s, [], cap)} else {})"
    using le all by auto
  finally show ?thesis .
qed

lemma chop_rev: "chop P s = rev (dropWhile P (rev s))"
  by (induction s) (auto simp: dropWhile_append list_all_iff)

lemma search_trailing:
  "(case search (Seq (Many P 1 None True) Eol) n s of
      None \<Rightarrow> s
    | Some (i, (j, rest, cap)) \<Rightarrow> take (i - n) s @ rest) = chop P s"
proof (induction s arbitrary: n)
  case Nil
  have "set (step (Seq (Many P 1 None True) Eol) (n, [], None)) = {}"
    by (simp only: set_step_trailing) simp
  then have "step (Seq (Many P 1 None True) Eol) (n, [], None) = []"
    by (simp del: step.simps)
  then show ?case by (simp del: step.simps)
next
  case (Cons x xs)
  let ?r = "Seq (Many P 1 None True) Eol"
  show ?case
  proof (cases "list_all P (x # xs)")
    case True
    then have "set (step ?r (n, x # xs, None)) = {(n + length (x # xs), [], None)}"
      by (simp only: set_step_trailing) simp
    then obtain ms where "step ?r (n, x # xs, None) = (n + length (x # xs), [], None) # ms"
      by (cases "step ?r (n, x # xs, None)") (auto simp del: step.simps)
    with True show ?thesis by (simp del: step.simps)
  next
    case False
    then have "set (step ?r (n, x # xs, None)) = {}"
      by (simp only: set_step_trailing) simp
    then have nil: "step ?r (n, x # xs, None) = []" by (simp del: step.simps)
    have "(case search ?r (Suc n) xs of
             None \<Rightarrow> x # xs
           | Some (i, (j, rest, cap)) \<Rightarrow> take (i - n) (x # xs) @ rest) =
          x # (case search ?r (Suc n) xs of
             None \<Rightarrow> xs
           | Some (i, (j, rest, cap)) \<Rightarrow> take (i - Suc n) xs @ rest)"
    proof (cases "search ?r (Suc n) xs")
      case None
      then show ?thesis by simp
    next
      case (Some m)
      obtain i j rest cap where m: "m = (i, (j, rest, cap))" by (cases m) auto
      from search_suffix Some m have "Suc n \<le> i" by blast
      then have "i - n = Suc (i - Suc n)" by arith
      with Some m show ?thesis by simp
    qed
    with nil False show ?thesis using Cons.IH [of "Suc n"] by (simp del: step.simps)
  qed
qed

lemma replace_trailing:
  "replace (Seq (Many P 1 None True) Eol) [] s = rev (dropWhile P (rev s))"
  using search_trailing [where P = P and n = 0 and s = s]
  by (cases "search (Seq (Many P 1 None True) Eol) 0 s") (auto simp: replace_def chop_rev)

subsection \<open>A run followed by one character, and the runs of a class\<close>

lemma search_eq_matches_eq:
  "search r n s = search r n' s' \<Longrightarrow> matches r n s = matches r n' s'"
  by (subst matches.simps, subst (2) matches.simps) simp

lemma step_Many_short:
  "length (takeWhile P s) < lo \<Longrightarrow> step (Many P lo None g) (n, s, cap) = []"
  by (simp add: Let_def)

lemma search_skip_short_run:
  assumes "list_all P u" and "length u < lo" and "v = [] \<or> \<not> P (hd v)"
  shows "search (Many P lo None g) n (u @ v) = search (Many P lo None g) (n + length u) v"
  using assms
proof (induction u arbitrary: n)
  case Nil
  then show ?case by simp
next
  case (Cons a u)
  from Cons.prems(3) have "takeWhile P v = []" by (cases v) auto
  with Cons.prems(1) have "takeWhile P ((a # u) @ v) = a # u"
    by (simp add: list_all_iff takeWhile_append2)
  with Cons.prems(2) have "step (Many P lo None g) (n, (a # u) @ v, None) = []"
    by (intro step_Many_short) simp
  then have "search (Many P lo None g) n ((a # u) @ v) = search (Many P lo None g) (Suc n) (u @ v)"
    by (simp del: step.simps)
  also have "\<dots> = search (Many P lo None g) (Suc n + length u) v"
    using Cons.prems by (intro Cons.IH) simp_all
  finally show ?case by simp
qed

lemma step_ident_colon:
  assumes "\<not> P d"
  shows "step (Seq (Many P 1 None True) (One (\<lambda>c. c = d))) (n, t, cap) \<noteq> [] \<longleftrightarrow>
         takeWhile P t \<noteq> [] \<and> startsWith (dropWhile P t) [d]"
proof -
  let ?run = "length (takeWhile P t)"
  have inner: "step (One (\<lambda>c. c = d)) (n + k, drop k t, cap) \<noteq> [] \<longleftrightarrow> k = ?run \<and> startsWith (dropWhile P t) [d]"
    if k: "k \<le> ?run" for k
  proof (cases "k = ?run")
    case True
    then have "drop k t = dropWhile P t" by (simp add: dropWhile_eq_drop)
    moreover have "step (One (\<lambda>c. c = d)) (n + k, dropWhile P t, cap) \<noteq> [] \<longleftrightarrow>
        startsWith (dropWhile P t) [d]"
      by (cases "dropWhile P t") (simp_all del: dropWhile_eq_Nil_conv)
    ultimately show ?thesis using True by (simp only: simp_thms)
  next
    case False
    with k have lt: "k < ?run" by simp
    then have "k < length t" using length_takeWhile_le [of P t] by simp
    then have d: "drop k t = t ! k # drop (Suc k) t" by (simp add: Cons_nth_drop_Suc)
    from lt have "takeWhile P t ! k = t ! k" by (rule takeWhile_nth)
    moreover from lt have "takeWhile P t ! k \<in> set (takeWhile P t)" by simp
    ultimately have "P (t ! k)" by (auto dest: set_takeWhileD)
    with assms have "t ! k \<noteq> d" by auto
    with d False show ?thesis by simp
  qed
  have "step (Seq (Many P 1 None True) (One (\<lambda>c. c = d))) (n, t, cap) \<noteq> [] \<longleftrightarrow>
        (\<exists>m \<in> set (step (Many P 1 None True) (n, t, cap)). step (One (\<lambda>c. c = d)) m \<noteq> [])"
    by (simp del: step.simps(1,2) add: step.simps(3))
  also have "\<dots> \<longleftrightarrow> (\<exists>k. 1 \<le> k \<and> k \<le> ?run \<and> step (One (\<lambda>c. c = d)) (n + k, drop k t, cap) \<noteq> [])"
    unfolding set_step_Many by blast
  also have "\<dots> \<longleftrightarrow> (\<exists>k. 1 \<le> k \<and> k \<le> ?run \<and> k = ?run \<and> startsWith (dropWhile P t) [d])"
    using inner by blast
  also have "\<dots> \<longleftrightarrow> takeWhile P t \<noteq> [] \<and> startsWith (dropWhile P t) [d]"
    by (cases "takeWhile P t") auto
  finally show ?thesis .
qed


section \<open>Properties of the file name sanitiser\<close>

lemma sanitiseFilename_eq:
  "sanitiseFilename str =
     rev (dropWhile dot_or_space (rev (dropWhile dot_or_space
       (map (\<lambda>c. if reserved c then 95 else c) str))))"
  unfolding sanitiseFilename_def replace_trailing replace_leading
  by (simp add: js_def replace_g_One)


lemma strip_ends:
  "strip P s = [] \<or> (\<not> P (hd (strip P s)) \<and> \<not> P (last (strip P s)))"
proof (cases "strip P s = []")
  case True
  then show ?thesis by simp
next
  case False
  let ?ys = "dropWhile P s"
  let ?zs = "dropWhile P (rev ?ys)"
  from False have zs: "?zs \<noteq> []" by (simp add: strip_def)
  have ys: "?ys \<noteq> []"
  proof
    assume "?ys = []"
    then have "?zs = []" by (simp only: rev.simps(1) dropWhile.simps(1))
    with zs show False by contradiction
  qed
  have at_end: "\<not> P (hd ?zs)" using zs by (rule hd_dropWhile)
  have "rev ?ys = takeWhile P (rev ?ys) @ ?zs" by simp
  then have "last (rev ?ys) = last ?zs" using zs by (metis last_appendR)
  then have "last ?zs = hd ?ys" using ys by (simp add: last_rev)
  moreover have "\<not> P (hd ?ys)" using ys by (rule hd_dropWhile)
  ultimately have front: "\<not> P (last ?zs)" by simp
  from zs front at_end show ?thesis
    by (simp add: strip_def hd_rev last_rev)
qed

lemma strip_fixed:
  assumes "s = [] \<or> (\<not> P (hd s) \<and> \<not> P (last s))"
  shows "strip P s = s"
proof (cases "s = []")
  case True
  then show ?thesis by (simp add: strip_def)
next
  case False
  with assms have "\<not> P (hd s)" "\<not> P (last s)" by auto
  from \<open>\<not> P (hd s)\<close> False have 1: "dropWhile P s = s"
    by (cases s) auto
  from \<open>\<not> P (last s)\<close> False have 2: "dropWhile P (rev s) = rev s"
    by (cases "rev s") (auto simp: last_rev dest: arg_cong [where f = hd] simp: hd_rev)
  show ?thesis by (simp add: strip_def 1 2)
qed

lemma set_strip: "set (strip P s) \<subseteq> set s"
proof -
  have "set (dropWhile P (rev (dropWhile P s))) \<subseteq> set (rev (dropWhile P s))"
    by (auto dest: set_dropWhileD)
  also have "\<dots> \<subseteq> set s" by (auto dest: set_dropWhileD)
  finally show ?thesis by (simp add: strip_def)
qed

lemma sanitiseFilename_strip:
  "sanitiseFilename str = strip dot_or_space (map (\<lambda>c. if reserved c then 95 else c) str)"
  by (simp add: sanitiseFilename_eq strip_def)

lemma sanitiseFilename_no_reserved:
  "c \<in> set (sanitiseFilename str) \<Longrightarrow> \<not> reserved c"
proof -
  assume "c \<in> set (sanitiseFilename str)"
  then have "c \<in> set (map (\<lambda>c. if reserved c then 95 else c) str)"
    using set_strip unfolding sanitiseFilename_strip by blast
  then show ?thesis by (auto simp: reserved_def split: if_splits)
qed

text \<open>
  C8. Sanitising is idempotent, and for every string the result holds none of the
  characters \<^verbatim>\<open>/ \ : * ? " < > |\<close> and neither starts nor ends with a dot or a white
  space character.
\<close>

theorem sanitiseFilename_idempotent:
  "sanitiseFilename (sanitiseFilename s) = sanitiseFilename s \<and>
   (\<forall>c \<in> set (sanitiseFilename s). \<not> reserved c) \<and>
   (sanitiseFilename s = [] \<or>
     (\<not> dot_or_space (hd (sanitiseFilename s)) \<and> \<not> dot_or_space (last (sanitiseFilename s))))"
proof (intro conjI ballI)
  let ?out = "sanitiseFilename s"
  show ends: "?out = [] \<or> (\<not> dot_or_space (hd ?out) \<and> \<not> dot_or_space (last ?out))"
    unfolding sanitiseFilename_strip by (rule strip_ends)
  have "map (\<lambda>c. if reserved c then 95 else c) ?out = ?out"
    by (rule map_idI) (simp add: sanitiseFilename_no_reserved)
  then have "sanitiseFilename ?out = strip dot_or_space ?out"
    by (simp add: sanitiseFilename_strip [of ?out])
  also have "\<dots> = ?out" using ends by (rule strip_fixed)
  finally show "sanitiseFilename ?out = ?out" .
next
  fix c assume "c \<in> set (sanitiseFilename s)"
  then show "\<not> reserved c" by (rule sanitiseFilename_no_reserved)
qed

lemma sanitiseFilename_example:
  "sanitiseFilename (js '' ..a/b: c?.mp3. '') = js ''a_b_ c_.mp3''"
  by (simp add: sanitiseFilename_strip strip_def js_def reserved_def dot_or_space_def is_space_def)

theorem sanitiseFilename_idempotent_witness:
  "sanitiseFilename (sanitiseFilename (js '' ..a/b: c?.mp3. '')) =
     sanitiseFilename (js '' ..a/b: c?.mp3. '') \<and>
   sanitiseFilename (js '' ..a/b: c?.mp3. '') = js ''a_b_ c_.mp3'' \<and>
   list_all (\<lambda>c. \<not> reserved c) (sanitiseFilename (js '' ..a/b: c?.mp3. '')) \<and>
   \<not> dot_or_space (hd (sanitiseFilename (js '' ..a/b: c?.mp3. ''))) \<and>
   \<not> dot_or_space (last (sanitiseFilename (js '' ..a/b: c?.mp3. '')))"
  using sanitiseFilename_idempotent [of "js '' ..a/b: c?.mp3. ''"]
  unfolding sanitiseFilename_example
  by (simp add: js_def reserved_def dot_or_space_def is_space_def)

text \<open>
  C9, as stated: the nine characters are deleted. The code puts an underscore in the
  place of each: \<^verbatim>\<open>a/b\<close> becomes \<^verbatim>\<open>a_b\<close>, not \<^verbatim>\<open>ab\<close>.
\<close>

theorem sanitiseFilename_deletes_counterexample:
  "sanitiseFilename (js ''a/b'') = js ''a_b'' \<and>
   sanitise_by_deleting (js ''a/b'') = js ''ab'' \<and>
   sanitiseFilename (js ''a/b'') \<noteq> sanitise_by_deleting (js ''a/b'')"
  by (simp add: sanitiseFilename_strip sanitise_by_deleting_def strip_def js_def reserved_def
      dot_or_space_def is_space_def)

text \<open>
  C9, amended: sanitising replaces every occurrence of the nine characters by an
  underscore, then removes the leading run and the trailing run of dots and white
  space.
\<close>

theorem sanitiseFilename_replaces:
  "sanitiseFilename str =
     strip dot_or_space (map (\<lambda>c. if reserved c then 95 else c) str)"
  by (simp add: sanitiseFilename_strip)

theorem sanitiseFilename_replaces_witness:
  "sanitiseFilename (js ''a/b: c'') = js ''a_b_ c''"
  unfolding sanitiseFilename_replaces
  by (simp add: strip_def js_def reserved_def dot_or_space_def is_space_def)

section \<open>Properties of URL validation\<close>

lemma newURL_examples_simps:
  "newURL_examples (js ''http://127.0.0.1/x'') =
     Inr \<lparr>protocol = js ''http:'', hostname = js ''127.0.0.1'', pathname = js ''/x''\<rparr>"
  "newURL_examples (js ''http://10.0.0.5/'') =
     Inr \<lparr>protocol = js ''http:'', hostname = js ''10.0.0.5'', pathname = js ''/''\<rparr>"
  "newURL_examples (js ''http://localhost/'') =
     Inr \<lparr>protocol = js ''http:'', hostname = js ''localhost'', pathname = js ''/''\<rparr>"
  "newURL_examples (js ''ftp://example.com/'') =
     Inr \<lparr>protocol = js ''ftp:'', hostname = js ''example.com'', pathname = js ''/''\<rparr>"
  "newURL_examples (js ''https://example.com/page'') =
     Inr \<lparr>protocol = js ''https:'', hostname = js ''example.com'', pathname = js ''/page''\<rparr>"
  "newURL_examples (js ''https://[::1]/'') =
     Inr \<lparr>protocol = js ''https:'', hostname = js ''[::1]'', pathname = js ''/''\<rparr>"
  "newURL_examples (js ''https://[fd00::1]/'') =
     Inr \<lparr>protocol = js ''https:'', hostname = js ''[fd00::1]'', pathname = js ''/''\<rparr>"
  "newURL_examples (js ''https://[fe80::1]/'') =
     Inr \<lparr>protocol = js ''https:'', hostname = js ''[fe80::1]'', pathname = js ''/''\<rparr>"
  "newURL_examples (js ''https://fcbarcelona.com/'') =
     Inr \<lparr>protocol = js ''https:'', hostname = js ''fcbarcelona.com'', pathname = js ''/''\<rparr>"
  "newURL_examples (js ''not a url'') = Inl TypeError"
  "newURL_examples (js ''ftp://fcbarcelona.com/'') =
     Inr \<lparr>protocol = js ''ftp:'', hostname = js ''fcbarcelona.com'', pathname = js ''/''\<rparr>"
  "newURL_examples (js ''https://fedoraproject.org/'') =
     Inr \<lparr>protocol = js ''https:'', hostname = js ''fedoraproject.org'', pathname = js ''/''\<rparr>"
  by (simp_all add: newURL_examples_def URL_examples_def js_def)

lemma validateUrl_Inl:
  "newURL url = Inl e \<Longrightarrow> validateUrl newURL url = Some (js ''Invalid URL'')"
  by (simp add: validateUrl_def)

lemma validateUrl_scheme:
  "newURL url = Inr parsed \<Longrightarrow> protocol parsed \<noteq> js ''https:'' \<Longrightarrow>
   protocol parsed \<noteq> js ''http:'' \<Longrightarrow>
   validateUrl newURL url = Some (js ''Only HTTP/HTTPS URLs are supported'')"
  by (simp add: validateUrl_def)

lemma validateUrl_host:
  "newURL url = Inr parsed \<Longrightarrow> protocol parsed = js ''https:'' \<or> protocol parsed = js ''http:'' \<Longrightarrow>
   validateUrl newURL url =
     (if test private_rx (toLowerCase (hostname parsed)) \<or>
         toLowerCase (hostname parsed) = js ''localhost'' \<or>
         toLowerCase (hostname parsed) = js ''[::1]''
      then Some (js ''Private or reserved addresses are not allowed'') else None)"
  by (auto simp: validateUrl_def Let_def)

lemma private_rx_examples:
  "test private_rx (js ''127.0.0.1'')"
  "test private_rx (js ''10.0.0.5'')"
  "test private_rx (js ''169.254.169.254'')"
  "test private_rx (js ''192.168.1.5'')"
  "test private_rx (js ''172.16.0.1'')"
  "\<not> test private_rx (js ''172.32.0.1'')"
  "\<not> test private_rx (js ''localhost'')"
  "\<not> test private_rx (js ''example.com'')"
  "\<not> test private_rx (js ''[::1]'')"
  by (simp_all add: private_rx_def test_Bol lit_def js_def is_digit_def)



lemma private_rx_bracket: "\<not> test private_rx (91 # rest)"
  by (simp add: private_rx_def test_Bol lit_def js_def)

lemma toLowerCase_examples:
  "toLowerCase (js ''127.0.0.1'') = js ''127.0.0.1''"
  "toLowerCase (js ''10.0.0.5'') = js ''10.0.0.5''"
  "toLowerCase (js ''localhost'') = js ''localhost''"
  "toLowerCase (js ''example.com'') = js ''example.com''"
  "toLowerCase (js ''[::1]'') = js ''[::1]''"
  "toLowerCase (js ''[fd00::1]'') = js ''[fd00::1]''"
  "toLowerCase (js ''[fe80::1]'') = js ''[fe80::1]''"
  "toLowerCase (js ''fcbarcelona.com'') = js ''fcbarcelona.com''"
  "toLowerCase (js ''fedoraproject.org'') = js ''fedoraproject.org''"
  by (simp_all add: toLowerCase_def js_def is_upper_def)

lemma validateUrl_private_host:
  assumes "newURL url = Inr parsed \<and> protocol parsed = js ''http:'' \<and> hostname parsed = h"
    and "test private_rx (toLowerCase h) \<or> toLowerCase h = js ''localhost''"
  shows "validateUrl newURL url = Some (js ''Private or reserved addresses are not allowed'')"
  using assms by (auto simp: validateUrl_host)

text \<open>
  C7. With a \<^verbatim>\<open>URL\<close> constructor that parses the five addresses as the URL Standard
  says, \<^const>\<open>validateUrl\<close> rejects \<^verbatim>\<open>http://127.0.0.1/x\<close>, \<^verbatim>\<open>http://10.0.0.5/\<close> and
  \<^verbatim>\<open>http://localhost/\<close> as private or reserved, rejects \<^verbatim>\<open>ftp://example.com/\<close> for its
  scheme, accepts \<^verbatim>\<open>https://example.com/page\<close>, and answers \<^verbatim>\<open>Invalid URL\<close> for every
  string on which the constructor throws. The function reads nothing but its argument
  and the constructor: it has no access to the network.
\<close>

theorem validateUrl_examples:
  "(newURL (js ''http://127.0.0.1/x'') = Inr p1 \<and> protocol p1 = js ''http:'' \<and>
      hostname p1 = js ''127.0.0.1'' \<longrightarrow>
    validateUrl newURL (js ''http://127.0.0.1/x'') =
      Some (js ''Private or reserved addresses are not allowed'')) \<and>
   (newURL (js ''http://10.0.0.5/'') = Inr p2 \<and> protocol p2 = js ''http:'' \<and>
      hostname p2 = js ''10.0.0.5'' \<longrightarrow>
    validateUrl newURL (js ''http://10.0.0.5/'') =
      Some (js ''Private or reserved addresses are not allowed'')) \<and>
   (newURL (js ''http://localhost/'') = Inr p3 \<and> protocol p3 = js ''http:'' \<and>
      hostname p3 = js ''localhost'' \<longrightarrow>
    validateUrl newURL (js ''http://localhost/'') =
      Some (js ''Private or reserved addresses are not allowed'')) \<and>
   (newURL (js ''ftp://example.com/'') = Inr p4 \<and> protocol p4 = js ''ftp:'' \<longrightarrow>
    validateUrl newURL (js ''ftp://example.com/'') =
      Some (js ''Only HTTP/HTTPS URLs are supported'')) \<and>
   (newURL (js ''https://example.com/page'') = Inr p5 \<and> protocol p5 = js ''https:'' \<and>
      hostname p5 = js ''example.com'' \<longrightarrow>
    validateUrl newURL (js ''https://example.com/page'') = None) \<and>
   (newURL url = Inl e \<longrightarrow> validateUrl newURL url = Some (js ''Invalid URL''))"
proof (intro conjI impI)
  assume "newURL (js ''http://127.0.0.1/x'') = Inr p1 \<and> protocol p1 = js ''http:'' \<and>
    hostname p1 = js ''127.0.0.1''"
  then show "validateUrl newURL (js ''http://127.0.0.1/x'') =
      Some (js ''Private or reserved addresses are not allowed'')"
    by (rule validateUrl_private_host) (simp add: private_rx_examples toLowerCase_examples)
next
  assume "newURL (js ''http://10.0.0.5/'') = Inr p2 \<and> protocol p2 = js ''http:'' \<and>
    hostname p2 = js ''10.0.0.5''"
  then show "validateUrl newURL (js ''http://10.0.0.5/'') =
      Some (js ''Private or reserved addresses are not allowed'')"
    by (rule validateUrl_private_host) (simp add: private_rx_examples toLowerCase_examples)
next
  assume "newURL (js ''http://localhost/'') = Inr p3 \<and> protocol p3 = js ''http:'' \<and>
    hostname p3 = js ''localhost''"
  then show "validateUrl newURL (js ''http://localhost/'') =
      Some (js ''Private or reserved addresses are not allowed'')"
    by (rule validateUrl_private_host) (simp add: toLowerCase_examples)
next
  assume "newURL (js ''ftp://example.com/'') = Inr p4 \<and> protocol p4 = js ''ftp:''"
  then have "newURL (js ''ftp://example.com/'') = Inr p4" "protocol p4 \<noteq> js ''https:''"
    "protocol p4 \<noteq> js ''http:''"
    by (simp_all add: js_def)
  then show "validateUrl newURL (js ''ftp://example.com/'') =
      Some (js ''Only HTTP/HTTPS URLs are supported'')"
    by (rule validateUrl_scheme)
next
  assume "newURL (js ''https://example.com/page'') = Inr p5 \<and> protocol p5 = js ''https:'' \<and>
    hostname p5 = js ''example.com''"
  then have "validateUrl newURL (js ''https://example.com/page'') =
     (if test private_rx (js ''example.com'') \<or> js ''example.com'' = js ''localhost'' \<or>
         js ''example.com'' = js ''[::1]''
      then Some (js ''Private or reserved addresses are not allowed'') else None)"
    by (simp add: validateUrl_host toLowerCase_examples)
  moreover have "js ''example.com'' \<noteq> js ''localhost''" "js ''example.com'' \<noteq> js ''[::1]''"
    by (simp_all add: js_def)
  ultimately show "validateUrl newURL (js ''https://example.com/page'') = None"
    by (simp add: private_rx_examples)
next
  assume "newURL url = Inl e"
  then show "validateUrl newURL url = Some (js ''Invalid URL'')"
    by (rule validateUrl_Inl)
qed

theorem validateUrl_examples_witness:
  "validateUrl newURL_examples (js ''http://127.0.0.1/x'') =
      Some (js ''Private or reserved addresses are not allowed'') \<and>
   validateUrl newURL_examples (js ''http://10.0.0.5/'') =
      Some (js ''Private or reserved addresses are not allowed'') \<and>
   validateUrl newURL_examples (js ''http://localhost/'') =
      Some (js ''Private or reserved addresses are not allowed'') \<and>
   validateUrl newURL_examples (js ''ftp://example.com/'') =
      Some (js ''Only HTTP/HTTPS URLs are supported'') \<and>
   validateUrl newURL_examples (js ''https://example.com/page'') = None \<and>
   validateUrl newURL_examples (js ''not a url'') = Some (js ''Invalid URL'')"
  using validateUrl_examples [where newURL = newURL_examples and url = "js ''not a url''"
      and e = TypeError
      and ?p1.0 = "\<lparr>protocol = js ''http:'', hostname = js ''127.0.0.1'', pathname = js ''/x''\<rparr>"
      and ?p2.0 = "\<lparr>protocol = js ''http:'', hostname = js ''10.0.0.5'', pathname = js ''/''\<rparr>"
      and ?p3.0 = "\<lparr>protocol = js ''http:'', hostname = js ''localhost'', pathname = js ''/''\<rparr>"
      and ?p4.0 = "\<lparr>protocol = js ''ftp:'', hostname = js ''example.com'', pathname = js ''/''\<rparr>"
      and ?p5.0 = "\<lparr>protocol = js ''https:'', hostname = js ''example.com'', pathname = js ''/page''\<rparr>"]
  by (simp add: newURL_examples_simps)






text \<open>
  C6. A \<^verbatim>\<open>URL\<close> object gives an IPv6 host in brackets, so the alternatives \<^verbatim>\<open>::1\<close>,
  \<^verbatim>\<open>fc\<close>, \<^verbatim>\<open>fd\<close> and \<^verbatim>\<open>fe80\<close> of the pattern, anchored at the start, never see one.
  Line 265 rejects \<^verbatim>\<open>[::1]\<close>; every other bracketed host is accepted, the unique-local
  \<^verbatim>\<open>[fd00::1]\<close> and the link-local \<^verbatim>\<open>[fe80::1]\<close> among them.
\<close>

theorem validateUrl_accepts_bracketed:
  assumes "newURL url = Inr parsed"
    and "protocol parsed = js ''https:'' \<or> protocol parsed = js ''http:''"
    and "hostname parsed = js ''['' @ rest"
    and "toLowerCase (hostname parsed) \<noteq> js ''[::1]''"
  shows "validateUrl newURL url = None"
proof -
  from assms(3) have "toLowerCase (hostname parsed) = 91 # toLowerCase rest"
    by (simp add: toLowerCase_def js_def is_upper_def)
  then have "\<not> test private_rx (toLowerCase (hostname parsed))"
    and "toLowerCase (hostname parsed) \<noteq> js ''localhost''"
    by (simp_all add: private_rx_bracket js_def)
  with assms(1,2,4) show ?thesis
    by (simp add: validateUrl_host)
qed

theorem validateUrl_accepts_bracketed_witness:
  "validateUrl newURL_examples (js ''https://[fd00::1]/'') = None \<and>
   validateUrl newURL_examples (js ''https://[fe80::1]/'') = None \<and>
   validateUrl newURL_examples (js ''https://[::1]/'') =
     Some (js ''Private or reserved addresses are not allowed'')"
proof -
  have ne: "js ''[fd00::1]'' \<noteq> js ''[::1]''" "js ''[fe80::1]'' \<noteq> js ''[::1]''"
    by (simp_all add: js_def)
  have 1: "validateUrl newURL_examples (js ''https://[fd00::1]/'') = None"
    using validateUrl_accepts_bracketed [where newURL = newURL_examples
        and url = "js ''https://[fd00::1]/''" and rest = "js ''fd00::1]''", OF newURL_examples_simps(7)]
      ne
    by (simp add: js_def toLowerCase_def is_upper_def)
  have 2: "validateUrl newURL_examples (js ''https://[fe80::1]/'') = None"
    using validateUrl_accepts_bracketed [where newURL = newURL_examples
        and url = "js ''https://[fe80::1]/''" and rest = "js ''fe80::1]''", OF newURL_examples_simps(8)]
      ne
    by (simp add: js_def toLowerCase_def is_upper_def)
  have 3: "validateUrl newURL_examples (js ''https://[::1]/'') =
     Some (js ''Private or reserved addresses are not allowed'')"
    using newURL_examples_simps(6) by (simp add: validateUrl_host toLowerCase_examples)
  from 1 2 3 show ?thesis by simp
qed

section \<open>Properties of the lyrics heuristic\<close>

lemma length_matches_tokens:
  assumes "0 < lo"
  shows "length (matches (Many P lo None True) n s) = length (tokens P lo s)"
  using assms
proof (induction P lo s arbitrary: n rule: tokens.induct)
  case (1 P lo)
  then have "search (Many P lo None True) n [] = None"
    by (simp add: Let_def)
  then have "matches (Many P lo None True) n [] = []"
    by (subst matches.simps) simp
  then show ?case by simp
next
  case (2 P lo x xs)
  let ?r = "Many P lo None True"
  let ?run = "length (takeWhile P (x # xs))"
  show ?case
  proof (cases "P x")
    case False
    with "2.prems" have "step ?r (n, x # xs, None) = []"
      by (intro step_Many_short) simp
    then have "search ?r n (x # xs) = search ?r (Suc n) xs"
      by (simp del: step.simps)
    then have "matches ?r n (x # xs) = matches ?r (Suc n) xs"
      by (rule search_eq_matches_eq)
    moreover have "tokens P lo (x # xs) = tokens P lo xs"
      using False by simp
    moreover have "length (matches ?r (Suc n) xs) = length (tokens P lo xs)"
      using False "2.prems" by (intro "2.IH"(2))
    ultimately show ?thesis by (simp only:)
  next
    case True
    then have dw: "dropWhile P (x # xs) = dropWhile P xs" by simp
    from True have run: "0 < ?run" by simp
    show ?thesis
    proof (cases "lo \<le> ?run")
      case long: True
      then have "search ?r n (x # xs) = Some (n, (n + ?run, dropWhile P xs, None))"
        using dw by (simp add: step_Many_greedy del: step.simps takeWhile.simps dropWhile.simps)
      then have "matches ?r n (x # xs) =
          (n, (n + ?run, dropWhile P xs, None)) # matches ?r (n + ?run) (dropWhile P xs)"
        using run by (subst matches.simps) (simp del: takeWhile.simps search.simps)
      moreover have "tokens P lo (x # xs) = takeWhile P (x # xs) # tokens P lo (dropWhile P xs)"
        using True long by (simp del: takeWhile.simps)
      moreover have "length (matches ?r (n + ?run) (dropWhile P xs)) =
          length (tokens P lo (dropWhile P xs))"
        using True "2.prems" by (intro "2.IH"(1))
      ultimately show ?thesis by (simp only: length_Cons)
    next
      case short: False
      have "x # xs = takeWhile P (x # xs) @ dropWhile P xs"
        using dw by (metis takeWhile_dropWhile_id)
      moreover have "list_all P (takeWhile P (x # xs))"
        by (auto simp: list_all_iff dest: set_takeWhileD)
      moreover have "dropWhile P xs = [] \<or> \<not> P (hd (dropWhile P xs))"
        using hd_dropWhile [of P xs] by blast
      ultimately have "search ?r n (x # xs) = search ?r (n + ?run) (dropWhile P xs)"
        using short search_skip_short_run [of P "takeWhile P (x # xs)" lo "dropWhile P xs" True n]
        by (simp del: takeWhile.simps search.simps)
      then have "matches ?r n (x # xs) = matches ?r (n + ?run) (dropWhile P xs)"
        by (rule search_eq_matches_eq)
      moreover have "tokens P lo (x # xs) = tokens P lo (dropWhile P xs)"
        using True short by (simp del: takeWhile.simps)
      moreover have "length (matches ?r (n + ?run) (dropWhile P xs)) =
          length (tokens P lo (dropWhile P xs))"
        using True "2.prems" by (intro "2.IH"(1))
      ultimately show ?thesis by (simp only:)
    qed
  qed
qed



lemma test_ident_colon:
  "test (Seq Bol (Seq (Many is_alnum 1 None True) (One (\<lambda>c. c = 58)))) t \<longleftrightarrow> ident_colon is_alnum t"
proof -
  have "\<not> is_alnum 58" by (simp add: is_alnum_def is_lower_def is_upper_def is_digit_def)
  from step_ident_colon [of is_alnum 58, OF this] show ?thesis
    unfolding test_Bol ident_colon_def by blast
qed

lemma looksLikeSunoLyrics_eq:
  "looksLikeSunoLyrics text \<longleftrightarrow>
     (let t = trim text in
      80 \<le> length t \<and>
      \<not> includes_str t (js ''{\"'') \<and>
      \<not> includes_str t (js '':[\"$'') \<and> \<not> includes_str t (js ''\"$L'') \<and>
      \<not> ident_colon is_alnum t \<and>
      4 \<le> length (filter (\<lambda>l. l \<noteq> []) (map trim (split 10 t))) \<and>
      20 \<le> length (tokens is_alpha 2 t))"
  unfolding looksLikeSunoLyrics_def Let_def test_ident_colon
  by (simp add: length_matches_tokens not_less)



lemma la_text_code: "looksLikeSunoLyrics la_text"
  unfolding looksLikeSunoLyrics_eq
  by (simp add: la_text_def trim_def js_def is_space_def ident_colon_def is_alnum_def
      is_alpha_def is_upper_def is_lower_def is_digit_def)

lemma la_text_claim: "\<not> claimed_lyrics la_text"
  unfolding claimed_lyrics_def
  by (simp add: la_text_def trim_def js_def is_space_def ident_colon_def
      is_alpha_def is_upper_def is_lower_def is_digit_def)

lemma chorus_text_code: "\<not> looksLikeSunoLyrics chorus_text"
  unfolding looksLikeSunoLyrics_eq
  by (simp add: chorus_text_def trim_def js_def is_space_def ident_colon_def is_alnum_def
      is_alpha_def is_upper_def is_lower_def is_digit_def)

lemma chorus_text_claim: "claimed_lyrics chorus_text"
  unfolding claimed_lyrics_def
  by (simp add: chorus_text_def trim_def js_def is_space_def ident_colon_def
      is_alpha_def is_upper_def is_lower_def is_digit_def)



text \<open>
  C1, as stated: the prefix test is for lower-case letters and digits, and 20 distinct
  word tokens are needed. The code accepts four lines of the one word \<^verbatim>\<open>la\<close>, and it
  rejects a text that starts with \<^verbatim>\<open>Chorus:\<close>, which the statement accepts.
\<close>

theorem looksLikeSunoLyrics_counterexample:
  "looksLikeSunoLyrics la_text \<and> \<not> claimed_lyrics la_text \<and>
   \<not> looksLikeSunoLyrics chorus_text \<and> claimed_lyrics chorus_text"
  using la_text_code la_text_claim chorus_text_code chorus_text_claim by simp

text \<open>
  C1, amended: a text is accepted exactly when, after trimming, it has at least 80
  code units, contains none of \<^verbatim>\<open>{"\<close>, \<^verbatim>\<open>:["$\<close> and \<^verbatim>\<open>"$L\<close>, does not start with a run
  of ASCII letters of either case and digits followed by a colon, has at least 4 lines
  that are not empty once trimmed, and has at least 20 word tokens (maximal runs of two
  or more ASCII letters), counted with repetition.
\<close>

theorem looksLikeSunoLyrics_iff:
  "looksLikeSunoLyrics text \<longleftrightarrow>
     (let t = trim text in
      80 \<le> length t \<and>
      \<not> includes_str t (js ''{\"'') \<and>
      \<not> includes_str t (js '':[\"$'') \<and> \<not> includes_str t (js ''\"$L'') \<and>
      \<not> ident_colon is_alnum t \<and>
      4 \<le> length (filter (\<lambda>l. l \<noteq> []) (map trim (split 10 t))) \<and>
      20 \<le> length (tokens is_alpha 2 t))"
  by (rule looksLikeSunoLyrics_eq)

theorem looksLikeSunoLyrics_iff_witness:
  "looksLikeSunoLyrics la_text \<and> \<not> looksLikeSunoLyrics (js ''la la la la'')"
  unfolding looksLikeSunoLyrics_iff
  by (simp add: la_text_def trim_def js_def is_space_def ident_colon_def is_alnum_def
      is_alpha_def is_upper_def is_lower_def is_digit_def)

section \<open>Properties of the meta tag extraction\<close>

lemma findAudio_plain_page:
  "findAudio plain_page META_TAGS = Some (js ''https://cdn.x.com/a.mp3'', ''og:audio:url'')"
  by (simp add: plain_page_def META_TAGS_def extractMeta_def match1_def meta_attr_def
      meta_content_def lit_i_def js_def canon_def is_lower_def quote_def not_gt_def Let_def)

text \<open>
  C3. The group \<^verbatim>\<open>([^"']+)\<close> ends at the first quote of either kind, and the quote
  after it need not be the one that opened the value. For the page
  \<^verbatim>\<open><meta property="og:audio" content="https://cdn.x.com/it's.mp3">\<close> the tag found is
  \<^verbatim>\<open>og:audio\<close>, and the address returned is \<^verbatim>\<open>https://cdn.x.com/it\<close>: the content of the
  tag cut at its apostrophe.
\<close>

theorem findAudio_apostrophe_page:
  "findAudio apostrophe_page META_TAGS = Some (js ''https://cdn.x.com/it'', ''og:audio'')"
  by (simp add: apostrophe_page_def META_TAGS_def extractMeta_def match1_def meta_attr_def
      meta_content_def lit_i_def js_def canon_def is_lower_def quote_def not_gt_def Let_def)

section \<open>Properties of the lyrics resolution\<close>

lemma catch_Inr: "\<exists>r. catch m d = Inr r"
  by (cases m) (simp_all add: catch_def)

lemma catch_Inl: "m = Inl e \<Longrightarrow> catch m d = Inr d"
  by (simp add: catch_def)

lemma catch_None: "m = Inr d \<Longrightarrow> catch m d = Inr d"
  by (simp add: catch_def)

lemma extractSunoLyrics_returns: "\<exists>r. extractSunoLyrics JSON_parse html = Inr r"
  by (auto simp: extractSunoLyrics_def Let_def catch_Inr split: option.splits)

lemma fetchSunoLyrics_returns: "\<exists>r. fetchSunoLyrics newURL fetch JSON_parse pageUrl = Inr r"
  unfolding fetchSunoLyrics_def by (rule catch_Inr)

lemma fetchSunoLyrics_bad_url:
  "newURL pageUrl = Inl e \<Longrightarrow> fetchSunoLyrics newURL fetch JSON_parse pageUrl = Inr None"
  by (simp add: fetchSunoLyrics_def fetchSunoLyrics_try_def bind_def catch_def)

lemma fetchSunoLyrics_other_host:
  "newURL pageUrl = Inr u \<Longrightarrow> hostname u \<noteq> js ''suno.com'' \<Longrightarrow> hostname u \<noteq> js ''www.suno.com'' \<Longrightarrow>
   fetchSunoLyrics newURL fetch JSON_parse pageUrl = Inr None"
  by (simp add: fetchSunoLyrics_def fetchSunoLyrics_try_def bind_def catch_def)

lemma fetchSunoLyrics_other_path:
  assumes "newURL pageUrl = Inr u"
    and "\<not> (\<exists>id' rest. filter (\<lambda>p. p \<noteq> []) (split 47 (pathname u)) = js ''song'' # id' # rest)"
  shows "fetchSunoLyrics newURL fetch JSON_parse pageUrl = Inr None"
  using assms
  by (auto simp: fetchSunoLyrics_def fetchSunoLyrics_try_def bind_def catch_def split: list.splits)

lemma fetchSunoLyrics_song:
  assumes "newURL pageUrl = Inr u"
    and "hostname u = js ''suno.com'' \<or> hostname u = js ''www.suno.com''"
    and "filter (\<lambda>p. p \<noteq> []) (split 47 (pathname u)) = js ''song'' # id' # rest"
  shows "fetchSunoLyrics newURL fetch JSON_parse pageUrl =
     (if \<not> test uuid_rx id' then Inr None
      else catch (bind (fetch (js ''https://suno.com/embed/'' @ id')) (\<lambda>res.
             if \<not> ok res then Inr None
             else bind (text_result res) (\<lambda>html. extractSunoLyrics JSON_parse html))) None)"
  using assms
  by (auto simp: fetchSunoLyrics_def fetchSunoLyrics_try_def bind_def catch_def)

lemma extractSunoLyrics_no_marker:
  "indexOf (normaliseSunoEscapes html) (js ''\"clip\":{'') 0 = None \<Longrightarrow>
   extractSunoLyrics JSON_parse html = Inr None"
  by (simp add: extractSunoLyrics_def)

lemma extractSunoLyrics_object:
  assumes "indexOf (normaliseSunoEscapes html) (js ''\"clip\":{'') 0 = Some clipIdx"
    and "indexOf (normaliseSunoEscapes html) (js ''{'') (clipIdx + length (js ''\"clip\":'')) =
         Some objStart"
  shows "extractSunoLyrics JSON_parse html =
     (case extractJsonObject (normaliseSunoEscapes html) objStart of
        None \<Rightarrow> Inr None
      | Some clipJson \<Rightarrow>
          if clipJson = [] then Inr None
          else catch (extractSunoLyrics_try JSON_parse html clipJson) None)"
  using assms by (simp add: extractSunoLyrics_def Let_def)

lemma extractSunoLyrics_try_parse:
  "JSON_parse clipJson = Inl e \<Longrightarrow> extractSunoLyrics_try JSON_parse html clipJson = Inl e"
  by (simp add: extractSunoLyrics_try_def bind_def)

lemma fetchSunoLyrics_fetched:
  assumes "newURL pageUrl = Inr u"
    and "hostname u = js ''suno.com'' \<or> hostname u = js ''www.suno.com''"
    and "filter (\<lambda>p. p \<noteq> []) (split 47 (pathname u)) = js ''song'' # id' # rest"
    and "test uuid_rx id'"
    and "fetch (js ''https://suno.com/embed/'' @ id') = Inr res"
    and "ok res" and "text_result res = Inr html"
  shows "fetchSunoLyrics newURL fetch JSON_parse pageUrl = extractSunoLyrics JSON_parse html"
proof -
  obtain r where r: "extractSunoLyrics JSON_parse html = Inr r"
    using extractSunoLyrics_returns [of JSON_parse html] by blast
  note eq = fetchSunoLyrics_song [where newURL = newURL and pageUrl = pageUrl and u = u
      and id' = id' and rest = rest and fetch = fetch and JSON_parse = JSON_parse,
      OF assms(1) assms(2) assms(3)]
  show ?thesis
    unfolding eq using assms(4-7) r by (simp add: bind_def catch_def)
qed

lemma fetchSunoLyrics_song_fails:
  assumes "newURL pageUrl = Inr u"
    and "filter (\<lambda>p. p \<noteq> []) (split 47 (pathname u)) = js ''song'' # id' # rest"
    and "\<not> test uuid_rx id' \<or>
         (\<exists>e. fetch (js ''https://suno.com/embed/'' @ id') = Inl e) \<or>
         (\<exists>res. fetch (js ''https://suno.com/embed/'' @ id') = Inr res \<and>
                (\<not> ok res \<or> (\<exists>e. text_result res = Inl e)))"
  shows "fetchSunoLyrics newURL fetch JSON_parse pageUrl = Inr None"
proof (cases "hostname u = js ''suno.com'' \<or> hostname u = js ''www.suno.com''")
  case False
  with assms(1) show ?thesis by (auto intro: fetchSunoLyrics_other_host)
next
  case True
  note eq = fetchSunoLyrics_song [where newURL = newURL and pageUrl = pageUrl and u = u
      and id' = id' and rest = rest and fetch = fetch and JSON_parse = JSON_parse,
      OF assms(1) True assms(2)]
  from assms(3) show ?thesis
    unfolding eq by (auto simp: bind_def catch_def)
qed

text \<open>
  C5. For every page address, every \<^verbatim>\<open>URL\<close> constructor, every behaviour of \<^verbatim>\<open>fetch\<close>
  and of \<^verbatim>\<open>JSON.parse\<close> and every embed page, \<^const>\<open>fetchSunoLyrics\<close> and
  \<^const>\<open>extractSunoLyrics\<close> return a value (a string or \<^verbatim>\<open>null\<close>) and do not throw. The
  value is \<^verbatim>\<open>null\<close> when the address does not parse, when the host is not
  \<^verbatim>\<open>suno.com\<close> or \<^verbatim>\<open>www.suno.com\<close>, when the path is not \<^verbatim>\<open>/song/<id>\<close>, when the
  identifier is not 36 hexadecimal digits and hyphens, when the fetch fails, answers
  with a status that is not 2xx or fails to deliver its body, when the page has no
  \<^verbatim>\<open>"clip":{\<close> marker, when the object after the marker is not closed, when
  \<^verbatim>\<open>JSON.parse\<close> throws on that object, and when anything after it in the \<^verbatim>\<open>try\<close>
  block throws. When every test of \<^const>\<open>fetchSunoLyrics\<close> passes, its value is the
  value of \<^const>\<open>extractSunoLyrics\<close> on the body of the embed page.
\<close>

theorem fetchSunoLyrics_never_throws:
  "(\<exists>r. fetchSunoLyrics newURL fetch JSON_parse pageUrl = Inr r) \<and>
   (\<exists>r. extractSunoLyrics JSON_parse html = Inr r) \<and>
   (newURL pageUrl = Inl e \<longrightarrow> fetchSunoLyrics newURL fetch JSON_parse pageUrl = Inr None) \<and>
   (newURL pageUrl = Inr u \<and> hostname u \<noteq> js ''suno.com'' \<and> hostname u \<noteq> js ''www.suno.com'' \<longrightarrow>
      fetchSunoLyrics newURL fetch JSON_parse pageUrl = Inr None) \<and>
   (newURL pageUrl = Inr u \<and>
      \<not> (\<exists>id' rest. filter (\<lambda>p. p \<noteq> []) (split 47 (pathname u)) = js ''song'' # id' # rest) \<longrightarrow>
      fetchSunoLyrics newURL fetch JSON_parse pageUrl = Inr None) \<and>
   (newURL pageUrl = Inr u \<and>
      filter (\<lambda>p. p \<noteq> []) (split 47 (pathname u)) = js ''song'' # id' # rest \<and>
      (\<not> test uuid_rx id' \<or>
       (\<exists>e. fetch (js ''https://suno.com/embed/'' @ id') = Inl e) \<or>
       (\<exists>res. fetch (js ''https://suno.com/embed/'' @ id') = Inr res \<and>
              (\<not> ok res \<or> (\<exists>e. text_result res = Inl e)))) \<longrightarrow>
      fetchSunoLyrics newURL fetch JSON_parse pageUrl = Inr None) \<and>
   (indexOf (normaliseSunoEscapes html) (js ''\"clip\":{'') 0 = None \<longrightarrow>
      extractSunoLyrics JSON_parse html = Inr None) \<and>
   (indexOf (normaliseSunoEscapes html) (js ''\"clip\":{'') 0 = Some clipIdx \<and>
    indexOf (normaliseSunoEscapes html) (js ''{'') (clipIdx + length (js ''\"clip\":'')) =
      Some objStart \<and>
    extractJsonObject (normaliseSunoEscapes html) objStart = None \<longrightarrow>
      extractSunoLyrics JSON_parse html = Inr None) \<and>
   (indexOf (normaliseSunoEscapes html) (js ''\"clip\":{'') 0 = Some clipIdx \<and>
    indexOf (normaliseSunoEscapes html) (js ''{'') (clipIdx + length (js ''\"clip\":'')) =
      Some objStart \<and>
    extractJsonObject (normaliseSunoEscapes html) objStart = Some clipJson \<and>
    JSON_parse clipJson = Inl e' \<longrightarrow>
      extractSunoLyrics JSON_parse html = Inr None) \<and>
   (indexOf (normaliseSunoEscapes html) (js ''\"clip\":{'') 0 = Some clipIdx \<and>
    indexOf (normaliseSunoEscapes html) (js ''{'') (clipIdx + length (js ''\"clip\":'')) =
      Some objStart \<and>
    extractJsonObject (normaliseSunoEscapes html) objStart = Some clipJson \<and>
    extractSunoLyrics_try JSON_parse html clipJson = Inl e' \<longrightarrow>
      extractSunoLyrics JSON_parse html = Inr None) \<and>
   (newURL pageUrl = Inr u \<and>
    (hostname u = js ''suno.com'' \<or> hostname u = js ''www.suno.com'') \<and>
    filter (\<lambda>p. p \<noteq> []) (split 47 (pathname u)) = js ''song'' # id' # rest \<and>
    test uuid_rx id' \<and>
    fetch (js ''https://suno.com/embed/'' @ id') = Inr res \<and> ok res \<and>
    text_result res = Inr html \<longrightarrow>
      fetchSunoLyrics newURL fetch JSON_parse pageUrl = extractSunoLyrics JSON_parse html)"
proof (intro conjI impI)
  show "\<exists>r. fetchSunoLyrics newURL fetch JSON_parse pageUrl = Inr r"
    by (rule fetchSunoLyrics_returns)
  show "\<exists>r. extractSunoLyrics JSON_parse html = Inr r"
    by (rule extractSunoLyrics_returns)
next
  assume "newURL pageUrl = Inl e"
  then show "fetchSunoLyrics newURL fetch JSON_parse pageUrl = Inr None"
    by (rule fetchSunoLyrics_bad_url)
next
  assume "newURL pageUrl = Inr u \<and> hostname u \<noteq> js ''suno.com'' \<and> hostname u \<noteq> js ''www.suno.com''"
  then show "fetchSunoLyrics newURL fetch JSON_parse pageUrl = Inr None"
    by (auto intro: fetchSunoLyrics_other_host)
next
  assume "newURL pageUrl = Inr u \<and>
      \<not> (\<exists>id' rest. filter (\<lambda>p. p \<noteq> []) (split 47 (pathname u)) = js ''song'' # id' # rest)"
  then show "fetchSunoLyrics newURL fetch JSON_parse pageUrl = Inr None"
    using fetchSunoLyrics_other_path [of newURL pageUrl u] by blast
next
  assume a: "newURL pageUrl = Inr u \<and>
      filter (\<lambda>p. p \<noteq> []) (split 47 (pathname u)) = js ''song'' # id' # rest \<and>
      (\<not> test uuid_rx id' \<or>
       (\<exists>e. fetch (js ''https://suno.com/embed/'' @ id') = Inl e) \<or>
       (\<exists>res. fetch (js ''https://suno.com/embed/'' @ id') = Inr res \<and>
              (\<not> ok res \<or> (\<exists>e. text_result res = Inl e))))"
  show "fetchSunoLyrics newURL fetch JSON_parse pageUrl = Inr None"
    by (rule fetchSunoLyrics_song_fails [of newURL pageUrl u id' rest fetch]) (use a in blast)+
next
  assume "indexOf (normaliseSunoEscapes html) (js ''\"clip\":{'') 0 = None"
  then show "extractSunoLyrics JSON_parse html = Inr None"
    by (rule extractSunoLyrics_no_marker)
next
  assume "indexOf (normaliseSunoEscapes html) (js ''\"clip\":{'') 0 = Some clipIdx \<and>
    indexOf (normaliseSunoEscapes html) (js ''{'') (clipIdx + length (js ''\"clip\":'')) =
      Some objStart \<and>
    extractJsonObject (normaliseSunoEscapes html) objStart = None"
  then show "extractSunoLyrics JSON_parse html = Inr None"
    by (simp add: extractSunoLyrics_object [of html clipIdx objStart])
next
  assume "indexOf (normaliseSunoEscapes html) (js ''\"clip\":{'') 0 = Some clipIdx \<and>
    indexOf (normaliseSunoEscapes html) (js ''{'') (clipIdx + length (js ''\"clip\":'')) =
      Some objStart \<and>
    extractJsonObject (normaliseSunoEscapes html) objStart = Some clipJson \<and>
    JSON_parse clipJson = Inl e'"
  then show "extractSunoLyrics JSON_parse html = Inr None"
    by (simp add: extractSunoLyrics_object [of html clipIdx objStart]
        extractSunoLyrics_try_parse [of JSON_parse clipJson e'] catch_def)
next
  assume "indexOf (normaliseSunoEscapes html) (js ''\"clip\":{'') 0 = Some clipIdx \<and>
    indexOf (normaliseSunoEscapes html) (js ''{'') (clipIdx + length (js ''\"clip\":'')) =
      Some objStart \<and>
    extractJsonObject (normaliseSunoEscapes html) objStart = Some clipJson \<and>
    extractSunoLyrics_try JSON_parse html clipJson = Inl e'"
  then show "extractSunoLyrics JSON_parse html = Inr None"
    by (simp add: extractSunoLyrics_object [of html clipIdx objStart] catch_def)
next
  assume a: "newURL pageUrl = Inr u \<and>
    (hostname u = js ''suno.com'' \<or> hostname u = js ''www.suno.com'') \<and>
    filter (\<lambda>p. p \<noteq> []) (split 47 (pathname u)) = js ''song'' # id' # rest \<and>
    test uuid_rx id' \<and>
    fetch (js ''https://suno.com/embed/'' @ id') = Inr res \<and> ok res \<and>
    text_result res = Inr html"
  show "fetchSunoLyrics newURL fetch JSON_parse pageUrl = extractSunoLyrics JSON_parse html"
    by (rule fetchSunoLyrics_fetched [of newURL pageUrl u id' rest fetch res html])
      (use a in blast)+
qed

lemma newURL_song:
  "newURL_examples song_url = Inr \<lparr>protocol = js ''https:'', hostname = js ''suno.com'',
     pathname = js ''/song/0123abcd-4567-89ef-0123-456789abcdef''\<rparr>"
  by (simp add: song_url_def newURL_examples_def URL_examples_def js_def)

lemma song_parts:
  "filter (\<lambda>p. p \<noteq> []) (split 47 (js ''/song/0123abcd-4567-89ef-0123-456789abcdef'')) =
     [js ''song'', js ''0123abcd-4567-89ef-0123-456789abcdef'']"
  by (simp add: js_def)

lemma song_id: "test uuid_rx (js ''0123abcd-4567-89ef-0123-456789abcdef'')"
  by (simp add: uuid_rx_def test_Bol js_def is_digit_def)

lemma no_marker_page:
  "indexOf (normaliseSunoEscapes (js ''<p>no song</p>'')) (js ''\"clip\":{'') 0 = None"
  by (simp add: normaliseSunoEscapes_def replace_g_def matches.simps lit_def js_def indexOf_def)

lemma normalise_clip_page:
  "normaliseSunoEscapes clip_page = js ''x={\"clip\":{\"displayed_lyrics\":\"la'' @ [10] @ js ''la\"}}''"
  by (simp add: clip_page_def normaliseSunoEscapes_def replace_g_def matches.simps lit_def js_def)

lemma clip_json_of_page:
  "extractJsonObject (normaliseSunoEscapes clip_page) 10 =
     Some (js ''{\"displayed_lyrics\":\"la'' @ [10] @ js ''la\"}'')"
  unfolding normalise_clip_page by (simp add: extractJsonObject_def js_def)

lemma pages_normalised:
  "normaliseSunoEscapes lyric_page = lyric_page"
  "normaliseSunoEscapes number_page = number_page"
  "normaliseSunoEscapes open_page = open_page"
  by (simp_all add: lyric_page_def number_page_def open_page_def normaliseSunoEscapes_def
      replace_g_def matches.simps lit_def js_def)

lemma pages_marker:
  "indexOf (normaliseSunoEscapes clip_page) (js ''\"clip\":{'') 0 = Some 3"
  "indexOf (normaliseSunoEscapes lyric_page) (js ''\"clip\":{'') 0 = Some 3"
  "indexOf (normaliseSunoEscapes number_page) (js ''\"clip\":{'') 0 = Some 3"
  "indexOf (normaliseSunoEscapes open_page) (js ''\"clip\":{'') 0 = Some 3"
  unfolding pages_normalised normalise_clip_page
  by (simp_all add: lyric_page_def number_page_def open_page_def indexOf_def js_def)

lemma pages_brace:
  "indexOf (normaliseSunoEscapes clip_page) (js ''{'') (3 + length (js ''\"clip\":'')) = Some 10"
  "indexOf (normaliseSunoEscapes lyric_page) (js ''{'') (3 + length (js ''\"clip\":'')) = Some 10"
  "indexOf (normaliseSunoEscapes number_page) (js ''{'') (3 + length (js ''\"clip\":'')) = Some 10"
  "indexOf (normaliseSunoEscapes open_page) (js ''{'') (3 + length (js ''\"clip\":'')) = Some 10"
  unfolding pages_normalised normalise_clip_page
  by (simp_all add: lyric_page_def number_page_def open_page_def indexOf_def js_def)

lemma pages_object:
  "extractJsonObject (normaliseSunoEscapes lyric_page) 10 =
     Some (js ''{\"displayed_lyrics\":\"la la\"}'')"
  "extractJsonObject (normaliseSunoEscapes number_page) 10 =
     Some (js ''{\"displayed_lyrics\":5}'')"
  "extractJsonObject (normaliseSunoEscapes open_page) 10 = None"
  unfolding pages_normalised
  by (simp_all add: lyric_page_def number_page_def open_page_def extractJsonObject_def js_def)

lemma JSON_examples_simps:
  "JSON_examples (js ''{\"displayed_lyrics\":\"la'' @ [10] @ js ''la\"}'') = Inl SyntaxError"
  "JSON_examples (js ''{\"displayed_lyrics\":\"la la\"}'') =
     Inr (JObj [(js ''displayed_lyrics'', JStr (js ''la la''))])"
  "JSON_examples (js ''{\"displayed_lyrics\":5}'') =
     Inr (JObj [(js ''displayed_lyrics'', JNum 5)])"
  by (simp_all add: JSON_examples_def js_def)

lemma extractSunoLyrics_try_number:
  "extractSunoLyrics_try JSON_examples number_page (js ''{\"displayed_lyrics\":5}'') =
     Inl TypeError"
  unfolding extractSunoLyrics_try_def JSON_examples_simps
  by (simp add: bind_def metadata_of_def displayed_of_def or_else_def js_def)

lemma extractSunoLyrics_lyric_page:
  "extractSunoLyrics JSON_examples lyric_page = Inr (Some (js ''la la''))"
  unfolding extractSunoLyrics_object [OF pages_marker(2) pages_brace(2)] pages_object
    option.case extractSunoLyrics_try_def JSON_examples_simps
  by (simp add: catch_def bind_def metadata_of_def displayed_of_def or_else_def non_empty_def
      trim_def is_space_def js_def token_rx_def instrumental_rx_def test_Bol lit_i_def
      canon_def is_lower_def)

theorem fetchSunoLyrics_never_throws_witness:
  "fetchSunoLyrics newURL_examples embed_down JSON_examples (js ''not a url'') = Inr None \<and>
   fetchSunoLyrics newURL_examples embed_down JSON_examples (js ''https://example.com/page'') = Inr None \<and>
   fetchSunoLyrics newURL_examples embed_down JSON_examples song_url = Inr None \<and>
   fetchSunoLyrics newURL_examples (embed_status False (Inr [])) JSON_examples song_url = Inr None \<and>
   fetchSunoLyrics newURL_examples (embed_status True (Inl NetworkError)) JSON_examples song_url = Inr None \<and>
   extractSunoLyrics JSON_examples (js ''<p>no song</p>'') = Inr None \<and>
   extractSunoLyrics JSON_examples open_page = Inr None \<and>
   extractSunoLyrics JSON_examples clip_page = Inr None \<and>
   extractSunoLyrics JSON_examples number_page = Inr None \<and>
   fetchSunoLyrics newURL_examples (embed_status True (Inr lyric_page)) JSON_examples song_url =
     Inr (Some (js ''la la''))"
proof -
  note t = fetchSunoLyrics_never_throws
  let ?song = "\<lparr>protocol = js ''https:'', hostname = js ''suno.com'',
     pathname = js ''/song/0123abcd-4567-89ef-0123-456789abcdef''\<rparr>"
  let ?id = "js ''0123abcd-4567-89ef-0123-456789abcdef''"
  have 1: "fetchSunoLyrics newURL_examples embed_down JSON_examples (js ''not a url'') = Inr None"
    by (rule t [THEN conjunct2, THEN conjunct2, THEN conjunct1, THEN mp])
      (rule newURL_examples_simps(10))
  have 2: "fetchSunoLyrics newURL_examples embed_down JSON_examples (js ''https://example.com/page'') =
      Inr None"
    by (rule t [where u = "\<lparr>protocol = js ''https:'', hostname = js ''example.com'',
          pathname = js ''/page''\<rparr>",
          THEN conjunct2, THEN conjunct2, THEN conjunct2, THEN conjunct1, THEN mp])
      (simp add: newURL_examples_simps, simp add: js_def)
  have 3: "fetchSunoLyrics newURL_examples embed_down JSON_examples song_url = Inr None"
    by (rule t [where u = ?song and id' = ?id and rest = "[]",
          THEN conjunct2, THEN conjunct2, THEN conjunct2, THEN conjunct2, THEN conjunct2,
          THEN conjunct1, THEN mp])
      (simp add: newURL_song song_parts embed_down_def)
  have 4: "fetchSunoLyrics newURL_examples (embed_status False (Inr [])) JSON_examples song_url =
      Inr None"
    by (rule t [where u = ?song and id' = ?id and rest = "[]",
          THEN conjunct2, THEN conjunct2, THEN conjunct2, THEN conjunct2, THEN conjunct2,
          THEN conjunct1, THEN mp])
      (simp add: newURL_song song_parts embed_status_def)
  have 5: "fetchSunoLyrics newURL_examples (embed_status True (Inl NetworkError)) JSON_examples
      song_url = Inr None"
    by (rule t [where u = ?song and id' = ?id and rest = "[]",
          THEN conjunct2, THEN conjunct2, THEN conjunct2, THEN conjunct2, THEN conjunct2,
          THEN conjunct1, THEN mp])
      (simp add: newURL_song song_parts embed_status_def)
  have 6: "extractSunoLyrics JSON_examples (js ''<p>no song</p>'') = Inr None"
    by (rule t [THEN conjunct2, THEN conjunct2, THEN conjunct2, THEN conjunct2, THEN conjunct2,
          THEN conjunct2, THEN conjunct1, THEN mp])
      (rule no_marker_page)
  have 7: "extractSunoLyrics JSON_examples open_page = Inr None"
    by (rule t [where clipIdx = 3 and objStart = 10,
          THEN conjunct2, THEN conjunct2, THEN conjunct2, THEN conjunct2, THEN conjunct2,
          THEN conjunct2, THEN conjunct2, THEN conjunct1, THEN mp])
      (simp add: pages_marker pages_brace pages_object)
  have 8: "extractSunoLyrics JSON_examples clip_page = Inr None"
    by (rule t [where clipIdx = 3 and objStart = 10 and e' = SyntaxError
          and clipJson = "js ''{\"displayed_lyrics\":\"la'' @ [10] @ js ''la\"}''",
          THEN conjunct2, THEN conjunct2, THEN conjunct2, THEN conjunct2, THEN conjunct2,
          THEN conjunct2, THEN conjunct2, THEN conjunct2, THEN conjunct1, THEN mp])
      (simp add: pages_marker pages_brace clip_json_of_page, simp add: JSON_examples_def js_def)
  have 9: "extractSunoLyrics JSON_examples number_page = Inr None"
    by (rule t [where clipIdx = 3 and objStart = 10 and e' = TypeError
          and clipJson = "js ''{\"displayed_lyrics\":5}''",
          THEN conjunct2, THEN conjunct2, THEN conjunct2, THEN conjunct2, THEN conjunct2,
          THEN conjunct2, THEN conjunct2, THEN conjunct2, THEN conjunct2, THEN conjunct1, THEN mp])
      (simp add: pages_marker pages_brace pages_object extractSunoLyrics_try_number)
  have "fetchSunoLyrics newURL_examples (embed_status True (Inr lyric_page)) JSON_examples song_url =
      extractSunoLyrics JSON_examples lyric_page"
    by (rule t [where u = ?song and id' = ?id and rest = "[]"
          and res = "\<lparr>ok = True, text_result = Inr lyric_page\<rparr>",
          THEN conjunct2, THEN conjunct2, THEN conjunct2, THEN conjunct2, THEN conjunct2,
          THEN conjunct2, THEN conjunct2, THEN conjunct2, THEN conjunct2, THEN conjunct2, THEN mp])
      (simp add: newURL_song song_parts song_id embed_status_def)
  then have 10: "fetchSunoLyrics newURL_examples (embed_status True (Inr lyric_page)) JSON_examples
      song_url = Inr (Some (js ''la la''))"
    by (simp add: extractSunoLyrics_lyric_page)
  from 1 2 3 4 5 6 7 8 9 10 show ?thesis by simp
qed


lemma step_fst_mono:
  "m \<in> set (step r (n, s, cap)) \<Longrightarrow> n \<le> fst m"
  using step_suffix [of "fst m" "fst (snd m)" "snd (snd m)" r n s cap] by simp

lemma step_Seq_progress:
  assumes "\<forall>m \<in> set (step a st). fst st < fst m"
  shows "\<forall>m \<in> set (step (Seq a b) st). fst st < fst m"
proof
  fix m assume "m \<in> set (step (Seq a b) st)"
  then obtain m1 where m1: "m1 \<in> set (step a st)" and m: "m \<in> set (step b m1)" by auto
  obtain n1 s1 c1 where "m1 = (n1, s1, c1)" by (cases m1) auto
  with m have "n1 \<le> fst m" by (auto dest: step_fst_mono)
  with assms m1 \<open>m1 = (n1, s1, c1)\<close> show "fst st < fst m" by fastforce
qed

lemma step_One_progress: "\<forall>m \<in> set (step (One P) st). fst st < fst m"
  by (cases st) (auto split: list.splits if_splits)

lemma flight_rx_progress: "\<forall>m \<in> set (step flight_rx st). fst st < fst m"
  unfolding flight_rx_def lit_def
  by (simp only: foldr.simps o_apply) (intro step_Seq_progress step_One_progress)

lemma search_from_step:
  "search r n s = Some (i, m) \<Longrightarrow> \<exists>s'. m \<in> set (step r (i, s', None))"
proof (induction s arbitrary: n)
  case Nil
  then have "m \<in> set (step r (i, [], None))"
    by (cases "step r (n, [], None)") (auto simp del: step.simps)
  then show ?case ..
next
  case (Cons x xs)
  show ?case
  proof (cases "step r (n, x # xs, None)")
    case Nil
    with Cons.prems have "search r (Suc n) xs = Some (i, m)" by (simp del: step.simps)
    then show ?thesis by (rule Cons.IH)
  next
    case (Cons m' ms)
    with Cons.prems have "m \<in> set (step r (i, x # xs, None))" by (auto simp del: step.simps)
    then show ?thesis ..
  qed
qed

lemma flight_matches_not_empty:
  "search flight_rx n s = Some (i, (j, rest, cap)) \<Longrightarrow> i < j"
  using search_from_step [of flight_rx n s i "(j, rest, cap)"] flight_rx_progress by fastforce


end
